theory Spec2Isabelle
  imports Main "HOL-Library.Char_ord" "HOL-Library.List_Lexorder"
begin


section \<open>Data model of staging-parser.ts\<close>

text \<open>
  The input types come from \<^verbatim>\<open>../types\<close>. A field-change record of a history
  entry carries \<^verbatim>\<open>field\<close>, \<^verbatim>\<open>fromString\<close> and \<^verbatim>\<open>toString\<close>; the last two may be
  \<^verbatim>\<open>null\<close>. Timestamps are JavaScript strings and are compared as strings.
\<close>

record JiraApiBaseItem =
  item_field :: string
  item_fromString :: "string option"
  item_toString :: "string option"

record JiraApiHistory =
  history_created :: string
  history_items :: "JiraApiBaseItem list"

record JiraApiIssue =
  fields_created :: string
  changelog_histories :: "JiraApiHistory list"

text \<open>
  The object literal built in \<^verbatim>\<open>processHistories\<close>; \<^verbatim>\<open>previousCreated\<close> is
  absent until one of the two assignments of the source writes it.
\<close>

record JiraComputedItem =
  fromString :: "string option"
  toString :: "string option"
  created :: string
  previousCreated :: "string option"

record StagePassedDays =
  didHappen :: bool
  passedDays :: int

text \<open>
  \<^verbatim>\<open>moment\<close> and \<^verbatim>\<open>moment-business-days\<close> are libraries outside the repository. The
  functions of the parser take the five operations they call as a parameter:
  \<^verbatim>\<open>moment(s)\<close>, \<^verbatim>\<open>d.format('YYYY-MM-DD')\<close>, \<^verbatim>\<open>e.businessDiff(s)\<close>,
  \<^verbatim>\<open>d.businessAdd(n)\<close> and \<^verbatim>\<open>d.businessSubtract(n)\<close>. None of them throws and none
  mutates its receiver; a moment object is always truthy. The sixth field names the
  members of a moment object, own and inherited: \<open>member d k\<close> is \<open>None\<close> when \<open>d\<close> has no
  member \<open>k\<close>, and otherwise tells whether the member is truthy. No member is itself a
  moment or has a method \<^verbatim>\<open>format\<close>, every member is a writable data property, and
  none is named \<^verbatim>\<open>done\<close> in any letter case.
\<close>

record 'm moment_lib =
  moment :: "string \<Rightarrow> 'm"
  format :: "'m \<Rightarrow> string"
  businessDiff :: "'m \<Rightarrow> 'm \<Rightarrow> int"
  businessAdd :: "'m \<Rightarrow> int \<Rightarrow> 'm"
  businessSubtract :: "'m \<Rightarrow> int \<Rightarrow> 'm"
  member :: "'m \<Rightarrow> string \<Rightarrow> bool option"

text \<open>
  The exceptions the parser can raise are \<^verbatim>\<open>TypeError\<close>s: reading a property of
  \<^verbatim>\<open>undefined\<close>, calling a method a value does not have, and assigning to a property
  that has only a getter. The error value names the property.
\<close>

datatype error = TypeError string

section \<open>JavaScript primitives\<close>

text \<open>\<^verbatim>\<open>created.split('T')[0]\<close>: the text before the first \<^verbatim>\<open>T\<close>.\<close>

definition splitT :: "string \<Rightarrow> string" where
  "splitT s = takeWhile (\<lambda>c. c \<noteq> CHR ''T'') s"

text \<open>
  \<^verbatim>\<open>stage.toLowerCase()\<close> on the letters A to Z. No other character has a lower-case
  form among the letters of \<^verbatim>\<open>done\<close>, so the comparison with \<^verbatim>\<open>'done'\<close> is exact.
\<close>

definition lowerChar :: "char \<Rightarrow> char" where
  "lowerChar c =
     (if CHR ''A'' \<le> c \<and> c \<le> CHR ''Z'' then char_of (of_char c + (32 :: nat)) else c)"

definition toLowerCase :: "string \<Rightarrow> string" where
  "toLowerCase s = map lowerChar s"

text \<open>Truthiness of an optional string: \<^verbatim>\<open>undefined\<close> and \<^verbatim>\<open>''\<close> are falsy.\<close>

fun truthy :: "string option \<Rightarrow> bool" where
  "truthy None = False"
| "truthy (Some s) = (s \<noteq> [])"

text \<open>\<^verbatim>\<open>(date && date.format('YYYY-MM-DD')) || ''\<close> for a date that is a moment or
  \<^verbatim>\<open>undefined\<close>.\<close>

definition formatOrEmpty :: "'m moment_lib \<Rightarrow> 'm option \<Rightarrow> string" where
  "formatOrEmpty L date = (case date of None \<Rightarrow> [] | Some d \<Rightarrow> format L d)"

section \<open>The tables\<close>

text \<open>
  The three tables of the parser (lines 67, 120 and 121) are created by \<^verbatim>\<open>new Map()\<close>
  but read and written with bracket notation, so an entry is a property of the table
  object and not an entry of the map. A table is modelled by its own properties, a
  partial map from names to values. Reading a name that is not an own property goes on
  to the prototypes of the object, \<^verbatim>\<open>Map.prototype\<close> and \<^verbatim>\<open>Object.prototype\<close>, whose
  members ECMAScript fixes. A value that was read is \<^verbatim>\<open>undefined\<close> (\<open>Missing\<close>), a value
  the parser stored (\<open>Entry\<close>), another truthy value such as a function or a prototype
  object (\<open>Truthy\<close>), or another falsy value such as \<^verbatim>\<open>0\<close> or \<^verbatim>\<open>false\<close> (\<open>Falsy\<close>).
\<close>

datatype 'v looked = Missing | Entry 'v | Truthy | Falsy

text \<open>
  The methods of \<^verbatim>\<open>Map.prototype\<close> and the members of \<^verbatim>\<open>Object.prototype\<close>, as
  ECMAScript 2015 to 2025 define them (those of Annex B included). \<^verbatim>\<open>size\<close> is apart:
  it is an accessor without setter, whose getter answers 0 because the parser never
  calls \<^verbatim>\<open>set\<close>.
\<close>

definition mapMembers :: "string list" where
  "mapMembers =
     [''clear'', ''constructor'', ''delete'', ''entries'', ''forEach'', ''get'', ''has'',
      ''keys'', ''set'', ''values'']"

definition objectMembers :: "string list" where
  "objectMembers =
     [''constructor'', ''hasOwnProperty'', ''isPrototypeOf'', ''propertyIsEnumerable'',
      ''toLocaleString'', ''toString'', ''valueOf'', ''__defineGetter__'',
      ''__defineSetter__'', ''__lookupGetter__'', ''__lookupSetter__'', ''__proto__'']"

definition inheritedNames :: "string list" where
  "inheritedNames = ''size'' # mapMembers @ objectMembers"

definition objectPrototype :: "string \<Rightarrow> 'v looked" where
  "objectPrototype k = (if k \<in> set objectMembers then Truthy else Missing)"

definition mapPrototype :: "string \<Rightarrow> 'v looked" where
  "mapPrototype k =
     (if k = ''size'' then Falsy
      else if k \<in> set mapMembers then Truthy
      else objectPrototype k)"

text \<open>
  Assigning to \<^verbatim>\<open>__proto__\<close> runs the setter of \<^verbatim>\<open>Object.prototype\<close>: the value, an
  object, becomes the prototype of the table, and reading \<^verbatim>\<open>__proto__\<close> gives it
  back. The model keeps it in the map under that name. From then on a name that is not
  an own property is looked up in that object: in a duration record, with its two
  properties and \<^verbatim>\<open>Object.prototype\<close> behind it, or in a moment.
\<close>

definition recordMember :: "StagePassedDays \<Rightarrow> string \<Rightarrow> StagePassedDays looked" where
  "recordMember r k =
     (if k = ''didHappen'' then (if didHappen r then Truthy else Falsy)
      else if k = ''passedDays'' then (if passedDays r = 0 then Falsy else Truthy)
      else objectPrototype k)"

definition momentMember :: "'m moment_lib \<Rightarrow> 'm \<Rightarrow> string \<Rightarrow> 'm looked" where
  "momentMember L m k =
     (if toLowerCase k = ''done'' then Missing
      else (case member L m k of
              None \<Rightarrow> Missing
            | Some b \<Rightarrow> (if b then Truthy else Falsy)))"

text \<open>\<^verbatim>\<open>table[k]\<close>, with the members of a prototype that replaced the original one.\<close>

definition tableGet ::
  "('v \<Rightarrow> string \<Rightarrow> 'v looked) \<Rightarrow> (string \<rightharpoonup> 'v) \<Rightarrow> string \<Rightarrow> 'v looked"
where
  "tableGet members table k =
     (case table k of
        Some v \<Rightarrow> Entry v
      | None \<Rightarrow>
          (case table ''__proto__'' of
             None \<Rightarrow> mapPrototype k
           | Some p \<Rightarrow> members p k))"

text \<open>
  \<^verbatim>\<open>table[k] = v\<close>. The file is a module, hence strict code: assigning to \<^verbatim>\<open>size\<close>
  while it is the inherited accessor throws. Every other name becomes, or already is,
  an own property (the inherited members are writable data properties).
\<close>

definition tableSet :: "(string \<rightharpoonup> 'v) \<Rightarrow> string \<Rightarrow> 'v \<Rightarrow> error + (string \<rightharpoonup> 'v)" where
  "tableSet table k v =
     (if k = ''size'' \<and> table ''size'' = None \<and> table ''__proto__'' = None
      then Inl (TypeError ''size'')
      else Inr (table(k \<mapsto> v)))"

fun truthyLooked :: "'v looked \<Rightarrow> bool" where
  "truthyLooked Missing = False"
| "truthyLooked (Entry v) = True"
| "truthyLooked Truthy = True"
| "truthyLooked Falsy = False"

text \<open>
  The moment a value is, if it is one. Calling a method of the date library on any other
  value throws, as it does on \<^verbatim>\<open>undefined\<close>.
\<close>

fun entryOf :: "'v looked \<Rightarrow> 'v option" where
  "entryOf (Entry v) = Some v"
| "entryOf x = None"

text \<open>
  \<^verbatim>\<open>(date && date.format('YYYY-MM-DD')) || ''\<close> for a value read from a table: a
  truthy value that is not a moment has no method \<^verbatim>\<open>format\<close>, and the call throws.
\<close>

definition formatLooked :: "'m moment_lib \<Rightarrow> 'm looked \<Rightarrow> error + string" where
  "formatLooked L date =
     (case date of
        Missing \<Rightarrow> Inr []
      | Entry d \<Rightarrow> Inr (format L d)
      | Truthy \<Rightarrow> Inl (TypeError ''format'')
      | Falsy \<Rightarrow> Inr [])"

section \<open>processHistories\<close>

text \<open>
  Lines 7 to 18: each history becomes the pair of its timestamp and its status items,
  pairs with no item are dropped, and every remaining item becomes a fresh object.
\<close>

definition statusEntries :: "JiraApiIssue \<Rightarrow> (string \<times> JiraApiBaseItem list) list" where
  "statusEntries issue =
     filter (\<lambda>entry. length (snd entry) > 0)
       (map (\<lambda>history.
               (history_created history,
                filter (\<lambda>historyItem. item_field historyItem = ''status'')
                  (history_items history)))
          (changelog_histories issue))"

definition computedItems :: "string \<times> JiraApiBaseItem list \<Rightarrow> JiraComputedItem list" where
  "computedItems entry =
     map (\<lambda>item. \<lparr>fromString = item_fromString item, toString = item_toString item,
                  created = fst entry, previousCreated = None\<rparr>)
       (snd entry)"

text \<open>
  Lines 20 to 26: the \<^verbatim>\<open>forEach\<close> that threads the variable \<^verbatim>\<open>previousCreated\<close>,
  which starts \<^verbatim>\<open>undefined\<close>.
\<close>

fun annotate :: "string option \<Rightarrow> JiraComputedItem list \<Rightarrow> JiraComputedItem list" where
  "annotate prev [] = []"
| "annotate prev (item # rest) =
     (if truthy prev then item\<lparr>previousCreated := prev\<rparr> else item)
       # annotate (Some (created item)) rest"

text \<open>
  The comparator \<^verbatim>\<open>a.created < b.created ? -1 : 1\<close> compares the timestamps as
  strings and never answers 0. The sort is modelled as the stable sort by that string
  order (items with equal timestamps keep their order), which is what the merge sort
  of current engines does with this comparator.
\<close>

definition processHistories :: "JiraApiIssue \<Rightarrow> JiraComputedItem list" where
  "processHistories issue =
     annotate None (sort_key created (concat (map computedItems (statusEntries issue))))"

section \<open>processActiveStatuses\<close>

text \<open>
  Lines 38 to 41 leave \<^verbatim>\<open>item.previousCreated\<close> truthy or equal to the issue's
  creation timestamp; this is the value the item holds afterwards.
\<close>

fun previousCreatedOr :: "string option \<Rightarrow> string \<Rightarrow> string" where
  "previousCreatedOr None c = c"
| "previousCreatedOr (Some p) c = (if p = [] then c else p)"

text \<open>
  Lines 35 to 49 for one stage: the \<^verbatim>\<open>filter\<close> and the \<^verbatim>\<open>reduce\<close> in one pass over
  \<^verbatim>\<open>sortedItems\<close>. The items are shared objects, so the pass returns the array with
  the write of line 40 applied, beside the variable \<^verbatim>\<open>activeStatusDate\<close> and the
  accumulator.
\<close>

fun reduceStage ::
  "'m moment_lib \<Rightarrow> JiraApiIssue \<Rightarrow> string \<Rightarrow> JiraComputedItem list \<Rightarrow>
   'm option \<Rightarrow> StagePassedDays \<Rightarrow> JiraComputedItem list \<times> 'm option \<times> StagePassedDays"
where
  "reduceStage L issue stage [] activeStatusDate acc = ([], activeStatusDate, acc)"
| "reduceStage L issue stage (item # rest) activeStatusDate acc =
     (if fromString item = Some stage then
        (let start = previousCreatedOr (previousCreated item) (fields_created issue);
             item' = item\<lparr>previousCreated := Some start\<rparr>;
             statusStart = moment L (splitT start);
             statusEnd = moment L (splitT (created item));
             activeStatusDate' =
               (case activeStatusDate of None \<Rightarrow> Some statusStart | Some d \<Rightarrow> Some d);
             acc' = \<lparr>didHappen = True,
                     passedDays = passedDays acc + businessDiff L statusEnd statusStart\<rparr>;
             r = reduceStage L issue stage rest activeStatusDate' acc'
         in (item' # fst r, snd r))
      else
        (let r = reduceStage L issue stage rest activeStatusDate acc
         in (item # fst r, snd r)))"

text \<open>
  The \<^verbatim>\<open>forEach\<close> of line 34 over the stages that \<^verbatim>\<open>activeStatuses\<close> includes. The
  state is the item array, \<^verbatim>\<open>activeStatusDate\<close> and \<^verbatim>\<open>activeStatusesPassedDays\<close>.
  The right-hand side of line 35 is evaluated before the assignment, which may throw.
\<close>

fun forEachActive ::
  "'m moment_lib \<Rightarrow> JiraApiIssue \<Rightarrow> string list \<Rightarrow>
   JiraComputedItem list \<times> 'm option \<times> (string \<rightharpoonup> StagePassedDays) \<Rightarrow>
   error + (JiraComputedItem list \<times> 'm option \<times> (string \<rightharpoonup> StagePassedDays))"
where
  "forEachActive L issue [] st = Inr st"
| "forEachActive L issue (stage # rest) (sortedItems, activeStatusDate, passed) =
     (let r = reduceStage L issue stage sortedItems activeStatusDate
                \<lparr>didHappen = False, passedDays = 0\<rparr>
      in case tableSet passed stage (snd (snd r)) of
           Inl e \<Rightarrow> Inl e
         | Inr passed' \<Rightarrow> forEachActive L issue rest (fst r, fst (snd r), passed'))"

definition processActiveStatuses ::
  "'m moment_lib \<Rightarrow> JiraApiIssue \<Rightarrow> string list \<Rightarrow> string list \<Rightarrow>
   JiraComputedItem list \<Rightarrow> (string \<rightharpoonup> StagePassedDays) \<Rightarrow>
   error + (JiraComputedItem list \<times> 'm option \<times> (string \<rightharpoonup> StagePassedDays))"
where
  "processActiveStatuses L issue stages activeStatuses sortedItems activeStatusesPassedDays =
     forEachActive L issue (filter (\<lambda>stage. stage \<in> set activeStatuses) stages)
       (sortedItems, None, activeStatusesPassedDays)"

section \<open>processInactiveStates\<close>

fun forEachInactive ::
  "'m moment_lib \<Rightarrow> JiraComputedItem list \<Rightarrow> string list \<Rightarrow> (string \<rightharpoonup> 'm) \<Rightarrow>
   error + (string \<rightharpoonup> 'm)"
where
  "forEachInactive L sortedItems [] dates = Inr dates"
| "forEachInactive L sortedItems (stage # rest) dates =
     (case find (\<lambda>item. toString item = Some stage) sortedItems of
        None \<Rightarrow> forEachInactive L sortedItems rest dates
      | Some firstStageItem \<Rightarrow>
          (case tableSet dates stage (moment L (splitT (created firstStageItem))) of
             Inl e \<Rightarrow> Inl e
           | Inr dates' \<Rightarrow> forEachInactive L sortedItems rest dates'))"

definition processInactiveStates ::
  "'m moment_lib \<Rightarrow> string list \<Rightarrow> string list \<Rightarrow> JiraComputedItem list \<Rightarrow>
   (string \<rightharpoonup> 'm) \<Rightarrow> error + (string \<rightharpoonup> 'm)"
where
  "processInactiveStates L stages activeStatuses sortedItems inactiveStatusesDates =
     forEachInactive L sortedItems (filter (\<lambda>stage. stage \<notin> set activeStatuses) stages)
       inactiveStatusesDates"

section \<open>mapDoneIssue\<close>

text \<open>
  The \<^verbatim>\<open>forEach\<close> of lines 68 to 77 over the reversed copy of \<^verbatim>\<open>activeStatuses\<close>.
  The state is the variable \<^verbatim>\<open>activeStatusDate\<close> and the table \<^verbatim>\<open>activeStatusDates\<close>.
  Reading \<^verbatim>\<open>didHappen\<close> of \<^verbatim>\<open>undefined\<close> throws; of any other value that is not a
  duration record it gives \<^verbatim>\<open>undefined\<close>, and the entry is skipped. Calling
  \<^verbatim>\<open>businessSubtract\<close> on a cursor that is not a moment throws.
\<close>

fun doneLoop ::
  "'m moment_lib \<Rightarrow> (string \<rightharpoonup> StagePassedDays) \<Rightarrow> string list \<Rightarrow>
   'm option \<times> (string \<rightharpoonup> 'm) \<Rightarrow> error + ('m option \<times> (string \<rightharpoonup> 'm))"
where
  "doneLoop L passed [] st = Inr st"
| "doneLoop L passed (status # rest) (activeStatusDate, activeStatusDates) =
     (case tableGet recordMember passed status of
        Missing \<Rightarrow> Inl (TypeError ''didHappen'')
      | Entry passedDaysResult \<Rightarrow>
          if \<not> didHappen passedDaysResult
          then doneLoop L passed rest (activeStatusDate, activeStatusDates)
          else
            (case activeStatusDate of
               None \<Rightarrow> Inl (TypeError ''businessSubtract'')
             | Some d \<Rightarrow>
                 (let d' = businessSubtract L d (passedDays passedDaysResult)
                  in case tableSet activeStatusDates status d' of
                       Inl e \<Rightarrow> Inl e
                     | Inr activeStatusDates' \<Rightarrow>
                         doneLoop L passed rest (Some d', activeStatusDates')))
      | Truthy \<Rightarrow> doneLoop L passed rest (activeStatusDate, activeStatusDates)
      | Falsy \<Rightarrow> doneLoop L passed rest (activeStatusDate, activeStatusDates))"

text \<open>\<^verbatim>\<open>stages.map\<close> with a callback that may throw: the first exception ends the call.\<close>

fun mapStages :: "(string \<Rightarrow> error + string) \<Rightarrow> string list \<Rightarrow> error + string list" where
  "mapStages f [] = Inr []"
| "mapStages f (stage # rest) =
     (case f stage of
        Inl e \<Rightarrow> Inl e
      | Inr s \<Rightarrow>
          (case mapStages f rest of
             Inl e \<Rightarrow> Inl e
           | Inr out \<Rightarrow> Inr (s # out)))"

definition mapDoneIssue ::
  "'m moment_lib \<Rightarrow> string list \<Rightarrow> string list \<Rightarrow> (string \<rightharpoonup> StagePassedDays) \<Rightarrow>
   (string \<rightharpoonup> 'm) \<Rightarrow> error + string list"
where
  "mapDoneIssue L stages activeStatuses activeStatusesPassedDays inactiveStatusesDates =
     (let activeStatusesReversed = rev activeStatuses;
          activeStatusDate = entryOf (tableGet (momentMember L) inactiveStatusesDates ''Done'')
      in case doneLoop L activeStatusesPassedDays activeStatusesReversed
                (activeStatusDate, Map.empty) of
           Inl e \<Rightarrow> Inl e
         | Inr st \<Rightarrow>
             mapStages
               (\<lambda>stage.
                  formatLooked L
                    (if stage \<in> set activeStatuses
                     then tableGet (momentMember L) (snd st) stage
                     else tableGet (momentMember L) inactiveStatusesDates stage))
               stages)"

section \<open>mapNotDoneIssue\<close>

text \<open>
  The callback of line 90 for one stage: the string it returns and the value of
  \<^verbatim>\<open>activeStatusDate\<close> it leaves.
\<close>

definition notDoneStage ::
  "'m moment_lib \<Rightarrow> string list \<Rightarrow> (string \<rightharpoonup> StagePassedDays) \<Rightarrow> (string \<rightharpoonup> 'm) \<Rightarrow>
   string \<Rightarrow> 'm option \<Rightarrow> error + (string \<times> 'm option)"
where
  "notDoneStage L activeStatuses activeStatusesPassedDays inactiveStatusesDates stage
       activeStatusDate =
     (let isDone = (toLowerCase stage = ''done'') in
      if stage \<notin> set activeStatuses \<and> \<not> isDone
      then (case formatLooked L (tableGet (momentMember L) inactiveStatusesDates stage) of
              Inl e \<Rightarrow> Inl e
            | Inr s \<Rightarrow> Inr (s, activeStatusDate))
      else if isDone \<and>
              \<not> truthyLooked (tableGet (momentMember L) inactiveStatusesDates stage)
      then Inr ([], activeStatusDate)
      else if isDone
      then (case activeStatusDate of
              None \<Rightarrow> Inl (TypeError ''format'')
            | Some d \<Rightarrow> Inr (format L d, activeStatusDate))
      else
        (case tableGet recordMember activeStatusesPassedDays stage of
           Missing \<Rightarrow> Inl (TypeError ''didHappen'')
         | Entry passedDaysResult \<Rightarrow>
             if \<not> didHappen passedDaysResult then Inr ([], activeStatusDate)
             else
               (case activeStatusDate of
                  None \<Rightarrow> Inl (TypeError ''businessAdd'')
                | Some stageDate \<Rightarrow>
                    Inr (format L stageDate,
                         Some (businessAdd L stageDate (passedDays passedDaysResult))))
         | Truthy \<Rightarrow> Inr ([], activeStatusDate)
         | Falsy \<Rightarrow> Inr ([], activeStatusDate)))"

text \<open>
  \<^verbatim>\<open>stages.map\<close> with that callback: the array built so far and the value the
  variable \<^verbatim>\<open>activeStatusDate\<close> holds at the end. The first exception ends the call.
\<close>

fun notDoneLoop ::
  "'m moment_lib \<Rightarrow> string list \<Rightarrow> (string \<rightharpoonup> StagePassedDays) \<Rightarrow> (string \<rightharpoonup> 'm) \<Rightarrow>
   string list \<Rightarrow> 'm option \<Rightarrow> error + (string list \<times> 'm option)"
where
  "notDoneLoop L activeStatuses passed dates [] activeStatusDate =
     Inr ([], activeStatusDate)"
| "notDoneLoop L activeStatuses passed dates (stage # rest) activeStatusDate =
     (case notDoneStage L activeStatuses passed dates stage activeStatusDate of
        Inl e \<Rightarrow> Inl e
      | Inr r \<Rightarrow>
          (case notDoneLoop L activeStatuses passed dates rest (snd r) of
             Inl e \<Rightarrow> Inl e
           | Inr q \<Rightarrow> Inr (fst r # fst q, snd q)))"

definition mapNotDoneIssue ::
  "'m moment_lib \<Rightarrow> string list \<Rightarrow> string list \<Rightarrow> (string \<rightharpoonup> StagePassedDays) \<Rightarrow>
   (string \<rightharpoonup> 'm) \<Rightarrow> 'm option \<Rightarrow> error + string list"
where
  "mapNotDoneIssue L stages activeStatuses activeStatusesPassedDays inactiveStatusesDates
       activeStatusDate =
     (case notDoneLoop L activeStatuses activeStatusesPassedDays inactiveStatusesDates
             stages activeStatusDate of
        Inl e \<Rightarrow> Inl e
      | Inr q \<Rightarrow> Inr (fst q))"

section \<open>getStagingDates\<close>

text \<open>
  \<^verbatim>\<open>stages\<close> is \<^verbatim>\<open>Object.keys(workflow)\<close>: the workflow's stage names in the order the
  object enumerates them. The two tables are created empty. An exception of either
  pass over the stages ends the call.
\<close>

definition getStagingDates ::
  "'m moment_lib \<Rightarrow> JiraApiIssue \<Rightarrow> string list \<Rightarrow> string list \<Rightarrow> error + string list"
where
  "getStagingDates L issue stages activeStatuses =
     (let sortedItems = processHistories issue
      in case processActiveStatuses L issue stages activeStatuses sortedItems Map.empty of
           Inl e \<Rightarrow> Inl e
         | Inr r \<Rightarrow>
             (let sortedItems' = fst r;
                  activeStatusDate = fst (snd r);
                  activeStatusesPassedDays = snd (snd r)
              in case processInactiveStates L stages activeStatuses sortedItems' Map.empty of
                   Inl e \<Rightarrow> Inl e
                 | Inr inactiveStatusesDates \<Rightarrow>
                     (let isDoneDate =
                            tableGet (momentMember L) inactiveStatusesDates ''Done''
                      in if \<not> truthyLooked isDoneDate
                         then mapNotDoneIssue L stages activeStatuses
                                activeStatusesPassedDays inactiveStatusesDates
                                activeStatusDate
                         else mapDoneIssue L stages activeStatuses
                                activeStatusesPassedDays inactiveStatusesDates)))"

section \<open>A Monday to Friday calendar\<close>

text \<open>
  Modelled from the spec: the business-day calendar, which the repository takes from
  \<^verbatim>\<open>moment\<close> and \<^verbatim>\<open>moment-business-days\<close> (Monday to Friday, no holidays). A moment
  is a day number counted from 1970-01-01, or the invalid date. Only the form
  \<^verbatim>\<open>YYYY-MM-DD\<close> is parsed; every other string is the invalid date. The concrete
  scenarios are evaluated with this calendar.
\<close>

datatype Moment = Day int | InvalidDate

definition digitVal :: "char \<Rightarrow> int option" where
  "digitVal c =
     (if CHR ''0'' \<le> c \<and> c \<le> CHR ''9'' then Some (int (of_char c) - 48) else None)"

definition isLeap :: "int \<Rightarrow> bool" where
  "isLeap y = (y mod 4 = 0 \<and> (y mod 400 = 0 \<or> y mod 100 \<noteq> 0))"

definition daysInMonth :: "int \<Rightarrow> int \<Rightarrow> int" where
  "daysInMonth y m =
     (if m = 2 then (if isLeap y then 29 else 28)
      else if m = 4 \<or> m = 6 \<or> m = 9 \<or> m = 11 then 30 else 31)"

definition daysFromCivil :: "int \<Rightarrow> int \<Rightarrow> int \<Rightarrow> int" where
  "daysFromCivil y m d =
     (let y' = (if m \<le> 2 then y - 1 else y);
          era = y' div 400;
          yoe = y' - era * 400;
          doy = (153 * (if m > 2 then m - 3 else m + 9) + 2) div 5 + d - 1;
          doe = yoe * 365 + yoe div 4 - yoe div 100 + doy
      in era * 146097 + doe - 719468)"

definition civilFromDays :: "int \<Rightarrow> int \<times> int \<times> int" where
  "civilFromDays z =
     (let z' = z + 719468;
          era = z' div 146097;
          doe = z' - era * 146097;
          yoe = (doe - doe div 1460 + doe div 36524 - doe div 146096) div 365;
          doy = doe - (365 * yoe + yoe div 4 - yoe div 100);
          mp = (5 * doy + 2) div 153;
          d = doy - (153 * mp + 2) div 5 + 1;
          m = (if mp < 10 then mp + 3 else mp - 9);
          y = yoe + era * 400
      in (if m \<le> 2 then y + 1 else y, m, d))"

definition parseMoment :: "string \<Rightarrow> Moment" where
  "parseMoment s =
     (case s of
        [y1, y2, y3, y4, s1, m1, m2, s2, d1, d2] \<Rightarrow>
          (if s1 = CHR ''-'' \<and> s2 = CHR ''-'' then
             (case those (map digitVal [y1, y2, y3, y4, m1, m2, d1, d2]) of
                Some [a, b, c, e, f, g, h, i] \<Rightarrow>
                  (let y = 1000 * a + 100 * b + 10 * c + e; m = 10 * f + g; d = 10 * h + i
                   in if 1 \<le> m \<and> m \<le> 12 \<and> 1 \<le> d \<and> d \<le> daysInMonth y m
                      then Day (daysFromCivil y m d) else InvalidDate)
              | _ \<Rightarrow> InvalidDate)
           else InvalidDate)
      | _ \<Rightarrow> InvalidDate)"

definition digitChar :: "int \<Rightarrow> char" where
  "digitChar n = char_of (48 + nat (n mod 10))"

definition formatMoment :: "Moment \<Rightarrow> string" where
  "formatMoment t =
     (case t of
        InvalidDate \<Rightarrow> ''Invalid date''
      | Day z \<Rightarrow>
          (case civilFromDays z of
             (y, m, d) \<Rightarrow>
               [digitChar (y div 1000), digitChar (y div 100), digitChar (y div 10),
                digitChar y, CHR ''-'', digitChar (m div 10), digitChar m, CHR ''-'',
                digitChar (d div 10), digitChar d]))"

text \<open>Day 0 is a Thursday; Sunday is 0 and Saturday is 6.\<close>

definition isBusinessDay :: "int \<Rightarrow> bool" where
  "isBusinessDay z = (let w = (z + 4) mod 7 in w \<noteq> 0 \<and> w \<noteq> 6)"

text \<open>The number of business days from the earlier date up to, not including, the later.\<close>

definition businessDiffDays :: "Moment \<Rightarrow> Moment \<Rightarrow> int" where
  "businessDiffDays a b =
     (case (a, b) of
        (Day x, Day y) \<Rightarrow> int (length (filter isBusinessDay [min x y .. max x y - 1]))
      | _ \<Rightarrow> 0)"

text \<open>
  One round of the library's loop: step one day in the direction of \<open>signal\<close> until a
  business day is reached, which takes at most three steps.
\<close>

definition stepBusinessDay :: "int \<Rightarrow> int \<Rightarrow> int" where
  "stepBusinessDay signal z =
     (if isBusinessDay (z + signal) then z + signal
      else if isBusinessDay (z + 2 * signal) then z + 2 * signal
      else z + 3 * signal)"

fun stepBusinessDays :: "int \<Rightarrow> nat \<Rightarrow> int \<Rightarrow> int" where
  "stepBusinessDays signal 0 z = z"
| "stepBusinessDays signal (Suc remaining) z =
     stepBusinessDays signal remaining (stepBusinessDay signal z)"

definition businessAddDays :: "Moment \<Rightarrow> int \<Rightarrow> Moment" where
  "businessAddDays t n =
     (case t of
        InvalidDate \<Rightarrow> InvalidDate
      | Day z \<Rightarrow> Day (stepBusinessDays (if n < 0 then - 1 else 1) (nat \<bar>n\<bar>) z))"

text \<open>
  Of the members of a moment object the calendar lists the four methods the parser
  calls and the members every object inherits.
\<close>

definition monFri :: "Moment moment_lib" where
  "monFri =
     \<lparr>moment = parseMoment, format = formatMoment, businessDiff = businessDiffDays,
      businessAdd = businessAddDays,
      businessSubtract = (\<lambda>t n. businessAddDays t (- n)),
      member = (\<lambda>t k. if k \<in> set [''format'', ''businessDiff'', ''businessAdd'',
                                        ''businessSubtract''] \<or> k \<in> set objectMembers
                           then Some True else None)\<rparr>"

section \<open>The scenarios\<close>

definition statusChange :: "string \<Rightarrow> string \<Rightarrow> string \<Rightarrow> JiraApiHistory" where
  "statusChange at from to =
     \<lparr>history_created = at,
      history_items =
        [\<lparr>item_field = ''status'', item_fromString = Some from, item_toString = Some to\<rparr>]\<rparr>"

definition workflowStages :: "string list" where
  "workflowStages = [''Backlog'', ''In Progress'', ''Done'']"

definition scenarioA :: JiraApiIssue where
  "scenarioA =
     \<lparr>fields_created = ''2024-01-01'',
      changelog_histories =
        [statusChange ''2024-01-02'' ''Backlog'' ''In Progress'',
         statusChange ''2024-01-08'' ''In Progress'' ''Done'']\<rparr>"

definition scenarioB :: JiraApiIssue where
  "scenarioB =
     \<lparr>fields_created = ''2024-01-02'',
      changelog_histories = [statusChange ''2024-01-03'' ''Backlog'' ''In Progress'']\<rparr>"

text \<open>
  A workflow with two active stages: two business days in progress, three in review.
\<close>

definition reviewStages :: "string list" where
  "reviewStages = [''Backlog'', ''In Progress'', ''Review'', ''Done'']"

definition reviewIssue :: JiraApiIssue where
  "reviewIssue =
     \<lparr>fields_created = ''2024-01-01'',
      changelog_histories =
        [statusChange ''2024-01-02'' ''Backlog'' ''In Progress'',
         statusChange ''2024-01-04'' ''In Progress'' ''Review'',
         statusChange ''2024-01-09'' ''Review'' ''Done'']\<rparr>"

text \<open>
  The intermediate tables of \<^verbatim>\<open>getStagingDates\<close>, as functions of its arguments: the
  own properties of the two tables and the variable \<^verbatim>\<open>activeStatusDate\<close> as they are
  when line 129 is reached. When the call throws before, the tables are taken empty.
\<close>

definition passedDaysTable ::
  "'m moment_lib \<Rightarrow> JiraApiIssue \<Rightarrow> string list \<Rightarrow> string list \<Rightarrow>
   (string \<rightharpoonup> StagePassedDays)"
where
  "passedDaysTable L issue stages activeStatuses =
     (case processActiveStatuses L issue stages activeStatuses
             (processHistories issue) Map.empty of
        Inl e \<Rightarrow> Map.empty
      | Inr r \<Rightarrow> snd (snd r))"

definition anchorDate ::
  "'m moment_lib \<Rightarrow> JiraApiIssue \<Rightarrow> string list \<Rightarrow> string list \<Rightarrow> 'm option"
where
  "anchorDate L issue stages activeStatuses =
     (case processActiveStatuses L issue stages activeStatuses
             (processHistories issue) Map.empty of
        Inl e \<Rightarrow> None
      | Inr r \<Rightarrow> fst (snd r))"

definition inactiveDatesTable ::
  "'m moment_lib \<Rightarrow> JiraApiIssue \<Rightarrow> string list \<Rightarrow> string list \<Rightarrow> (string \<rightharpoonup> 'm)"
where
  "inactiveDatesTable L issue stages activeStatuses =
     (case processActiveStatuses L issue stages activeStatuses
             (processHistories issue) Map.empty of
        Inl e \<Rightarrow> Map.empty
      | Inr r \<Rightarrow>
          (case processInactiveStates L stages activeStatuses (fst r) Map.empty of
             Inl e \<Rightarrow> Map.empty
           | Inr dates \<Rightarrow> dates))"

text \<open>An issue whose only changelog entry changes the summary, not the status.\<close>

definition renamedIssue :: JiraApiIssue where
  "renamedIssue =
     \<lparr>fields_created = ''2024-01-01'',
      changelog_histories =
        [\<lparr>history_created = ''2024-01-02'',
          history_items =
            [\<lparr>item_field = ''summary'', item_fromString = Some ''Old title'',
              item_toString = Some ''New title''\<rparr>]\<rparr>]\<rparr>"

text \<open>
  A workflow whose last stage is spelled \<^verbatim>\<open>done\<close>: the branch test of
  \<^verbatim>\<open>getStagingDates\<close> looks up \<^verbatim>\<open>'Done'\<close>, the test of \<^verbatim>\<open>mapNotDoneIssue\<close>
  compares the lower-cased name.
\<close>

definition lowerDoneStages :: "string list" where
  "lowerDoneStages = [''Backlog'', ''In Progress'', ''Review'', ''done'']"

definition lowerDoneIssue :: JiraApiIssue where
  "lowerDoneIssue =
     \<lparr>fields_created = ''2024-01-01'',
      changelog_histories =
        [statusChange ''2024-01-02'' ''Backlog'' ''In Progress'',
         statusChange ''2024-01-04'' ''In Progress'' ''Review'',
         statusChange ''2024-01-09'' ''Review'' ''done'']\<rparr>"

text \<open>
  A new issue, whose changelog is empty, in a workflow with a stage named
  \<^verbatim>\<open>constructor\<close>.
\<close>

definition newIssue :: JiraApiIssue where
  "newIssue = \<lparr>fields_created = ''2024-01-01'', changelog_histories = []\<rparr>"

definition constructorStages :: "string list" where
  "constructorStages = [''Backlog'', ''In Progress'', ''constructor'', ''Done'']"


section \<open>The objects of the call, in a store\<close>

text \<open>
  The parser writes to objects in two places: \<^verbatim>\<open>item.previousCreated = ...\<close> (lines 23
  and 40) and the in-place \<^verbatim>\<open>sort\<close> of line 19. To see which objects these writes
  reach, the issue and everything \<^verbatim>\<open>processHistories\<close> builds live in a store: a list
  of objects, an object being its named properties and, for an array, its elements.
  A reference is an index of the store, and a new object goes to the end of it.
  Timestamps and names are strings, as the types of the source say; the tables of the
  call and the moments of the date library stay values.
\<close>

datatype jsval = Undefined | Null | Str string | Ref nat

record jsobj =
  obj_props :: "(string \<times> jsval) list"
  obj_elems :: "jsval list"

type_synonym store = "jsobj list"

definition getProp :: "store \<Rightarrow> jsval \<Rightarrow> string \<Rightarrow> jsval" where
  "getProp st v k =
     (case v of
        Ref r \<Rightarrow>
          (if r < length st
           then (case map_of (obj_props (st ! r)) k of Some x \<Rightarrow> x | None \<Rightarrow> Undefined)
           else Undefined)
      | _ \<Rightarrow> Undefined)"

definition getElems :: "store \<Rightarrow> jsval \<Rightarrow> jsval list" where
  "getElems st v =
     (case v of Ref r \<Rightarrow> (if r < length st then obj_elems (st ! r) else []) | _ \<Rightarrow> [])"

definition setProp :: "store \<Rightarrow> jsval \<Rightarrow> string \<Rightarrow> jsval \<Rightarrow> store" where
  "setProp st v k x =
     (case v of
        Ref r \<Rightarrow>
          (if r < length st
           then st[r := (st ! r)\<lparr>obj_props :=
                         (k, x) # filter (\<lambda>p. fst p \<noteq> k) (obj_props (st ! r))\<rparr>]
           else st)
      | _ \<Rightarrow> st)"

definition alloc :: "store \<Rightarrow> jsobj \<Rightarrow> store \<times> nat" where
  "alloc st obj = (st @ [obj], length st)"

fun truthyVal :: "jsval \<Rightarrow> bool" where
  "truthyVal (Str s) = (s \<noteq> [])"
| "truthyVal (Ref r) = True"
| "truthyVal Undefined = False"
| "truthyVal Null = False"

fun strOf :: "jsval \<Rightarrow> string" where
  "strOf (Str s) = s"
| "strOf v = []"

fun optStr :: "jsval \<Rightarrow> string option" where
  "optStr (Str s) = Some s"
| "optStr v = None"

text \<open>Lines 7 to 11 of \<^verbatim>\<open>processHistories\<close>: temporaries that nothing writes to.\<close>

definition statusEntriesStore :: "store \<Rightarrow> jsval \<Rightarrow> (jsval \<times> jsval list) list" where
  "statusEntriesStore st issue =
     filter (\<lambda>entry. length (snd entry) > 0)
       (map (\<lambda>history.
               (getProp st history ''created'',
                filter (\<lambda>historyItem. getProp st historyItem ''field'' = Str ''status'')
                  (getElems st (getProp st history ''items''))))
          (getElems st (getProp st (getProp st issue ''changelog'') ''histories'')))"

text \<open>Lines 13 to 17: one new object per status item.\<close>

fun allocItems :: "store \<Rightarrow> (jsval \<times> jsval) list \<Rightarrow> store \<times> jsval list" where
  "allocItems st [] = (st, [])"
| "allocItems st (p # rest) =
     (let a = alloc st
                \<lparr>obj_props = [(''fromString'', getProp st (snd p) ''fromString''),
                              (''toString'', getProp st (snd p) ''toString''),
                              (''created'', fst p)],
                 obj_elems = []\<rparr>;
          r = allocItems (fst a) rest
      in (fst r, Ref (snd a) # snd r))"

text \<open>Lines 20 to 26.\<close>

fun annotateStore :: "store \<Rightarrow> jsval \<Rightarrow> jsval list \<Rightarrow> store" where
  "annotateStore st prev [] = st"
| "annotateStore st prev (item # rest) =
     (let st' = (if truthyVal prev
                 then setProp st item ''previousCreated'' prev else st)
      in annotateStore st' (getProp st' item ''created'') rest)"

text \<open>
  \<^verbatim>\<open>processHistories\<close>: the new items, the new array that \<^verbatim>\<open>concat\<close> returns, its sort
  in place, and the \<^verbatim>\<open>forEach\<close>. The result is the store and the reference of
  \<^verbatim>\<open>sortedItems\<close>.
\<close>

definition processHistoriesStore :: "store \<Rightarrow> jsval \<Rightarrow> store \<times> jsval" where
  "processHistoriesStore st issue =
     (let pairs = concat (map (\<lambda>entry. map (\<lambda>item. (fst entry, item)) (snd entry))
                            (statusEntriesStore st issue));
          items = allocItems st pairs;
          a = alloc (fst items) \<lparr>obj_props = [], obj_elems = snd items\<rparr>;
          st1 = fst a;
          sorted = sort_key (\<lambda>v. strOf (getProp st1 v ''created'')) (obj_elems (st1 ! snd a));
          st2 = st1[snd a := (st1 ! snd a)\<lparr>obj_elems := sorted\<rparr>]
      in (annotateStore st2 Undefined (getElems st2 (Ref (snd a))), Ref (snd a)))"

text \<open>Lines 37 to 49 of \<^verbatim>\<open>processActiveStatuses\<close>: the \<^verbatim>\<open>reduce\<close> over the filtered items.\<close>

fun reduceStore ::
  "'m moment_lib \<Rightarrow> jsval \<Rightarrow> jsval list \<Rightarrow> store \<Rightarrow> 'm option \<Rightarrow> StagePassedDays \<Rightarrow>
   store \<times> 'm option \<times> StagePassedDays"
where
  "reduceStore L issue [] st activeStatusDate acc = (st, activeStatusDate, acc)"
| "reduceStore L issue (item # rest) st activeStatusDate acc =
     (let st' = (if \<not> truthyVal (getProp st item ''previousCreated'')
                 then setProp st item ''previousCreated''
                        (getProp st (getProp st issue ''fields'') ''created'')
                 else st);
          statusStart = moment L (splitT (strOf (getProp st' item ''previousCreated'')));
          statusEnd = moment L (splitT (strOf (getProp st' item ''created'')));
          activeStatusDate' =
            (case activeStatusDate of None \<Rightarrow> Some statusStart | Some d \<Rightarrow> Some d);
          acc' = \<lparr>didHappen = True,
                  passedDays = passedDays acc + businessDiff L statusEnd statusStart\<rparr>
      in reduceStore L issue rest st' activeStatusDate' acc')"

text \<open>
  The \<^verbatim>\<open>forEach\<close> of line 34: the store it leaves and, unless the assignment of line 35
  threw, \<^verbatim>\<open>activeStatusDate\<close> and the table.
\<close>

fun forEachActiveStore ::
  "'m moment_lib \<Rightarrow> jsval \<Rightarrow> jsval \<Rightarrow> string list \<Rightarrow>
   store \<times> 'm option \<times> (string \<rightharpoonup> StagePassedDays) \<Rightarrow>
   store \<times> (error + ('m option \<times> (string \<rightharpoonup> StagePassedDays)))"
where
  "forEachActiveStore L issue sortedItems [] (st, activeStatusDate, passed) =
     (st, Inr (activeStatusDate, passed))"
| "forEachActiveStore L issue sortedItems (stage # rest) (st, activeStatusDate, passed) =
     (let r = reduceStore L issue
                (filter (\<lambda>item. getProp st item ''fromString'' = Str stage)
                   (getElems st sortedItems))
                st activeStatusDate \<lparr>didHappen = False, passedDays = 0\<rparr>
      in case tableSet passed stage (snd (snd r)) of
           Inl e \<Rightarrow> (fst r, Inl e)
         | Inr passed' \<Rightarrow>
             forEachActiveStore L issue sortedItems rest (fst r, fst (snd r), passed'))"

definition processActiveStatusesStore ::
  "'m moment_lib \<Rightarrow> store \<Rightarrow> jsval \<Rightarrow> string list \<Rightarrow> string list \<Rightarrow> jsval \<Rightarrow>
   (string \<rightharpoonup> StagePassedDays) \<Rightarrow>
   store \<times> (error + ('m option \<times> (string \<rightharpoonup> StagePassedDays)))"
where
  "processActiveStatusesStore L st issue stages activeStatuses sortedItems
       activeStatusesPassedDays =
     forEachActiveStore L issue sortedItems
       (filter (\<lambda>stage. stage \<in> set activeStatuses) stages)
       (st, None, activeStatusesPassedDays)"

text \<open>The item objects of \<^verbatim>\<open>sortedItems\<close>, read for the code that only reads them.\<close>

definition loadComputedItem :: "store \<Rightarrow> jsval \<Rightarrow> JiraComputedItem" where
  "loadComputedItem st v =
     \<lparr>fromString = optStr (getProp st v ''fromString''),
      toString = optStr (getProp st v ''toString''),
      created = strOf (getProp st v ''created''),
      previousCreated = optStr (getProp st v ''previousCreated'')\<rparr>"

text \<open>
  \<^verbatim>\<open>getStagingDates\<close> on the store: what it returns or throws, and the store it leaves.
\<close>

definition getStagingDatesStore ::
  "'m moment_lib \<Rightarrow> store \<Rightarrow> jsval \<Rightarrow> string list \<Rightarrow> string list \<Rightarrow>
   (error + string list) \<times> store"
where
  "getStagingDatesStore L st issue stages activeStatuses =
     (let h = processHistoriesStore st issue;
          sortedItems = snd h;
          r = processActiveStatusesStore L (fst h) issue stages activeStatuses sortedItems
                Map.empty;
          st' = fst r
      in (case snd r of
            Inl e \<Rightarrow> Inl e
          | Inr q \<Rightarrow>
              (let activeStatusDate = fst q;
                   activeStatusesPassedDays = snd q
               in case processInactiveStates L stages activeStatuses
                         (map (loadComputedItem st') (getElems st' sortedItems)) Map.empty of
                    Inl e \<Rightarrow> Inl e
                  | Inr inactiveStatusesDates \<Rightarrow>
                      (let isDoneDate =
                             tableGet (momentMember L) inactiveStatusesDates ''Done''
                       in if \<not> truthyLooked isDoneDate
                          then mapNotDoneIssue L stages activeStatuses
                                 activeStatusesPassedDays inactiveStatusesDates
                                 activeStatusDate
                          else mapDoneIssue L stages activeStatuses
                                 activeStatusesPassedDays inactiveStatusesDates)),
          st'))"

text \<open>Scenario A as objects: two field-change records, two item arrays, two histories,
  the array of histories, and the objects \<^verbatim>\<open>changelog\<close>, \<^verbatim>\<open>fields\<close> and the issue.\<close>

definition scenarioAStore :: store where
  "scenarioAStore =
     [\<lparr>obj_props = [(''field'', Str ''status''), (''fromString'', Str ''Backlog''),
                    (''toString'', Str ''In Progress'')], obj_elems = []\<rparr>,
      \<lparr>obj_props = [], obj_elems = [Ref 0]\<rparr>,
      \<lparr>obj_props = [(''created'', Str ''2024-01-02''), (''items'', Ref 1)], obj_elems = []\<rparr>,
      \<lparr>obj_props = [(''field'', Str ''status''), (''fromString'', Str ''In Progress''),
                    (''toString'', Str ''Done'')], obj_elems = []\<rparr>,
      \<lparr>obj_props = [], obj_elems = [Ref 3]\<rparr>,
      \<lparr>obj_props = [(''created'', Str ''2024-01-08''), (''items'', Ref 4)], obj_elems = []\<rparr>,
      \<lparr>obj_props = [], obj_elems = [Ref 2, Ref 5]\<rparr>,
      \<lparr>obj_props = [(''histories'', Ref 6)], obj_elems = []\<rparr>,
      \<lparr>obj_props = [(''created'', Str ''2024-01-01'')], obj_elems = []\<rparr>,
      \<lparr>obj_props = [(''fields'', Ref 8), (''changelog'', Ref 7)], obj_elems = []\<rparr>]"

text \<open>A value that is not a reference to one of the first \<open>n\<close> objects of the store.\<close>

definition freshVal :: "nat \<Rightarrow> jsval \<Rightarrow> bool" where
  "freshVal n v = (case v of Ref r \<Rightarrow> n \<le> r | _ \<Rightarrow> True)"

subsection \<open>The store read as the issue of the list model\<close>

text \<open>The issue as the list model sees it, read from the store.\<close>

definition loadItem :: "store \<Rightarrow> jsval \<Rightarrow> JiraApiBaseItem" where
  "loadItem st v =
     \<lparr>item_field = strOf (getProp st v ''field''),
      item_fromString = optStr (getProp st v ''fromString''),
      item_toString = optStr (getProp st v ''toString'')\<rparr>"

definition loadHistory :: "store \<Rightarrow> jsval \<Rightarrow> JiraApiHistory" where
  "loadHistory st h =
     \<lparr>history_created = strOf (getProp st h ''created''),
      history_items = map (loadItem st) (getElems st (getProp st h ''items''))\<rparr>"

definition loadIssue :: "store \<Rightarrow> jsval \<Rightarrow> JiraApiIssue" where
  "loadIssue st issue =
     \<lparr>fields_created = strOf (getProp st (getProp st issue ''fields'') ''created''),
      changelog_histories =
        map (loadHistory st)
          (getElems st (getProp st (getProp st issue ''changelog'') ''histories''))\<rparr>"

text \<open>
  What the types of the source promise about the issue: its timestamps are strings, and
  the issue, its \<^verbatim>\<open>fields\<close> and its field-change records are objects of the store (or
  no objects at all), not references past its end.
\<close>

fun isStr :: "jsval \<Rightarrow> bool" where
  "isStr (Str s) = True"
| "isStr v = False"

definition inStore :: "store \<Rightarrow> jsval \<Rightarrow> bool" where
  "inStore st v = (case v of Ref r \<Rightarrow> r < length st | _ \<Rightarrow> True)"

definition wellTyped :: "store \<Rightarrow> jsval \<Rightarrow> bool" where
  "wellTyped st issue =
     (inStore st issue \<and> inStore st (getProp st issue ''fields'') \<and>
      isStr (getProp st (getProp st issue ''fields'') ''created'') \<and>
      list_all (\<lambda>h. isStr (getProp st h ''created'') \<and>
                    list_all (inStore st) (getElems st (getProp st h ''items'')))
        (getElems st (getProp st (getProp st issue ''changelog'') ''histories'')))"

text \<open>
  The object that \<^verbatim>\<open>processHistories\<close> allocates for one field-change record and the
  timestamp of its history, and the same item in the list model.
\<close>

definition newItem :: "store \<Rightarrow> jsval \<times> jsval \<Rightarrow> jsobj" where
  "newItem st p =
     \<lparr>obj_props = [(''fromString'', getProp st (snd p) ''fromString''),
                   (''toString'', getProp st (snd p) ''toString''),
                   (''created'', fst p)],
      obj_elems = []\<rparr>"

definition newComputedItem :: "store \<Rightarrow> jsval \<times> jsval \<Rightarrow> JiraComputedItem" where
  "newComputedItem st p =
     \<lparr>fromString = optStr (getProp st (snd p) ''fromString''),
      toString = optStr (getProp st (snd p) ''toString''),
      created = strOf (fst p), previousCreated = None\<rparr>"

text \<open>
  An issue moved from Backlog straight to \<^verbatim>\<open>done\<close>, in a workflow whose only active
  stage it never entered.
\<close>

definition directStages :: "string list" where
  "directStages = [''Backlog'', ''In Progress'', ''done'']"

definition directIssue :: JiraApiIssue where
  "directIssue =
     \<lparr>fields_created = ''2024-01-01'',
      changelog_histories = [statusChange ''2024-01-03'' ''Backlog'' ''done'']\<rparr>"

section \<open>Reading and writing the tables\<close>

lemma objectPrototype_not_Entry: "objectPrototype k \<noteq> Entry v"
  by (simp add: objectPrototype_def)

lemma mapPrototype_not_Entry: "mapPrototype k \<noteq> Entry v"
  by (simp add: mapPrototype_def objectPrototype_not_Entry)

lemma recordMember_not_Entry: "recordMember r k \<noteq> Entry v"
  by (simp add: recordMember_def objectPrototype_not_Entry)

lemma momentMember_not_Entry: "momentMember L m k \<noteq> Entry v"
  by (simp add: momentMember_def split: option.splits)

lemma tableGet_own: "table k = Some v \<Longrightarrow> tableGet members table k = Entry v"
  by (simp add: tableGet_def)

lemma tableGet_record_Entry:
  "tableGet recordMember table k = Entry v \<longleftrightarrow> table k = Some v"
  by (auto simp: tableGet_def mapPrototype_not_Entry recordMember_not_Entry
      split: option.splits)

lemma tableGet_moment_Entry:
  "tableGet (momentMember L) table k = Entry v \<longleftrightarrow> table k = Some v"
  by (auto simp: tableGet_def mapPrototype_not_Entry momentMember_not_Entry
      split: option.splits)

lemma entryOf_tableGet_moment: "entryOf (tableGet (momentMember L) table k) = table k"
proof (cases "table k")
  case None
  have "\<forall>v. tableGet (momentMember L) table k \<noteq> Entry v"
    by (simp add: tableGet_moment_Entry None)
  then show ?thesis unfolding None
    by (cases "tableGet (momentMember L) table k") auto
next
  case (Some v)
  then show ?thesis by (simp add: tableGet_own)
qed

lemma inherited_not_done: "k \<in> set inheritedNames \<Longrightarrow> toLowerCase k \<noteq> ''done''"
proof -
  have "list_all (\<lambda>k. toLowerCase k \<noteq> ''done'') inheritedNames" by code_simp
  then show "k \<in> set inheritedNames \<Longrightarrow> toLowerCase k \<noteq> ''done''"
    by (simp add: list_all_iff)
qed

lemma mapPrototype_plain: "k \<notin> set inheritedNames \<Longrightarrow> mapPrototype k = Missing"
  by (simp add: mapPrototype_def objectPrototype_def inheritedNames_def)

lemma mapPrototype_inherited: "mapPrototype k \<noteq> Missing \<Longrightarrow> k \<in> set inheritedNames"
  using mapPrototype_plain by blast

lemma tableGet_done:
  assumes "toLowerCase k = ''done''"
  shows "tableGet (momentMember L) table k =
           (case table k of None \<Rightarrow> Missing | Some d \<Rightarrow> Entry d)"
proof -
  from assms inherited_not_done have "k \<notin> set inheritedNames" by blast
  with assms show ?thesis
    by (simp add: tableGet_def momentMember_def mapPrototype_plain split: option.splits)
qed

lemma lower_Done: "toLowerCase ''Done'' = ''done''"
  by code_simp

lemma truthy_Done:
  "truthyLooked (tableGet (momentMember L) table ''Done'') \<longleftrightarrow> table ''Done'' \<noteq> None"
  by (simp add: tableGet_done[OF lower_Done] split: option.splits)

lemma formatLooked_table:
  assumes "formatLooked L (tableGet (momentMember L) table k) = Inr s"
  shows "s = formatOrEmpty L (table k)"
proof (cases "table k")
  case None
  then have "\<forall>v. tableGet (momentMember L) table k \<noteq> Entry v"
    by (simp add: tableGet_moment_Entry)
  with assms None show ?thesis
    by (cases "tableGet (momentMember L) table k")
       (auto simp: formatLooked_def formatOrEmpty_def)
next
  case (Some d)
  with assms show ?thesis
    by (simp add: tableGet_own formatLooked_def formatOrEmpty_def)
qed

lemma tableSet_Inr: "tableSet table k v = Inr table' \<Longrightarrow> table' = table(k \<mapsto> v)"
  by (auto simp: tableSet_def split: if_splits)

lemma tableSet_other: "k \<noteq> ''size'' \<Longrightarrow> tableSet table k v = Inr (table(k \<mapsto> v))"
  by (simp add: tableSet_def)

lemma tableGet_plain:
  "table ''__proto__'' = None \<Longrightarrow> k \<notin> set inheritedNames \<Longrightarrow>
   tableGet members table k = (case table k of None \<Rightarrow> Missing | Some v \<Rightarrow> Entry v)"
  by (simp add: tableGet_def mapPrototype_plain split: option.splits)

section \<open>The two simulation loops\<close>

subsection \<open>The backward loop\<close>

lemma doneLoop_append:
  "doneLoop L passed (xs @ ys) st =
     (case doneLoop L passed xs st of Inl e \<Rightarrow> Inl e | Inr st' \<Rightarrow> doneLoop L passed ys st')"
proof (induction xs arbitrary: st)
  case Nil
  show ?case by simp
next
  case (Cons x xs)
  obtain c dates where st: "st = (c, dates)" by (cases st)
  show ?case
    unfolding st using Cons.IH
    by (simp split: option.splits looked.splits sum.splits add: Let_def)
qed

lemma doneLoop_keeps_date:
  "doneLoop L passed xs (c, dates) = Inr (c', dates') \<Longrightarrow> s \<notin> set xs \<Longrightarrow> dates' s = dates s"
proof (induction xs arbitrary: c dates)
  case Nil
  then show ?case by simp
next
  case (Cons x xs)
  then show ?case
    by (auto split: option.splits if_splits looked.splits sum.splits
        simp: Let_def dest!: tableSet_Inr)
qed

lemma doneLoop_cursor_Some:
  "doneLoop L passed xs (Some d, dates) = Inr (c', dates') \<Longrightarrow> \<exists>d'. c' = Some d'"
proof (induction xs arbitrary: d dates)
  case Nil
  then show ?case by auto
next
  case (Cons x xs)
  then show ?case
    by (auto split: option.splits if_splits looked.splits sum.splits simp: Let_def)
qed


lemma doneLoop_total:
  "set xs \<subseteq> dom passed \<Longrightarrow> ''size'' \<notin> set xs \<Longrightarrow>
   \<exists>st. doneLoop L passed xs (Some d, dates) = Inr st"
proof (induction xs arbitrary: d dates)
  case Nil
  then show ?case by simp
next
  case (Cons x xs)
  then obtain r where "passed x = Some r" by auto
  then have r: "tableGet recordMember passed x = Entry r" by (rule tableGet_own)
  from Cons.prems have "x \<noteq> ''size''" by auto
  with Cons r show ?case by (simp add: Let_def tableSet_other)
qed

lemma doneLoop_written:
  "doneLoop L passed xs (c, dates) = Inr (c', dates') \<Longrightarrow> dates' s = Some d \<Longrightarrow>
   dates s = None \<Longrightarrow> \<exists>r. passed s = Some r \<and> didHappen r"
proof (induction xs arbitrary: c dates)
  case Nil
  then show ?case by simp
next
  case (Cons x xs)
  show ?case
  proof (cases "\<exists>rx. tableGet recordMember passed x = Entry rx \<and> didHappen rx")
    case False
    with Cons.prems(1) have "doneLoop L passed xs (c, dates) = Inr (c', dates')"
      by (auto split: looked.splits if_splits)
    from Cons.IH[OF this Cons.prems(2,3)] show ?thesis .
  next
    case True
    then obtain rx where rx: "tableGet recordMember passed x = Entry rx" and h: "didHappen rx"
      by blast
    with Cons.prems(1) obtain dx where cx: "c = Some dx"
      and loop: "doneLoop L passed xs
        (Some (businessSubtract L dx (passedDays rx)),
         dates(x \<mapsto> businessSubtract L dx (passedDays rx))) = Inr (c', dates')"
      by (auto simp: Let_def split: option.splits sum.splits dest!: tableSet_Inr)
    show ?thesis
    proof (cases "s = x")
      case True
      with rx h show ?thesis by (simp add: tableGet_record_Entry)
    next
      case False
      with Cons.prems(3) have "(dates(x \<mapsto> businessSubtract L dx (passedDays rx))) s = None"
        by simp
      from Cons.IH[OF loop Cons.prems(2) this] show ?thesis .
    qed
  qed
qed

subsection \<open>The array the Done branch returns\<close>

lemma mapStages_Inr:
  "mapStages f xs = Inr out \<Longrightarrow>
   length out = length xs \<and> (\<forall>i < length xs. f (xs ! i) = Inr (out ! i))"
proof (induction xs arbitrary: out)
  case Nil
  then show ?case by simp
next
  case (Cons x xs)
  from Cons.prems obtain s rest where s: "f x = Inr s" and rest: "mapStages f xs = Inr rest"
    and out: "out = s # rest"
    by (auto split: sum.splits)
  from Cons.IH[OF rest] have ih: "length rest = length xs"
    "\<And>i. i < length xs \<Longrightarrow> f (xs ! i) = Inr (rest ! i)" by simp_all
  show ?case
  proof (intro conjI allI impI)
    show "length out = length (x # xs)" by (simp add: out ih)
  next
    fix i assume "i < length (x # xs)"
    then show "f ((x # xs) ! i) = Inr (out ! i)"
      by (cases i) (simp_all add: out s ih)
  qed
qed

lemma mapStages_cong:
  "(\<And>x. x \<in> set xs \<Longrightarrow> f x = g x) \<Longrightarrow> mapStages f xs = mapStages g xs"
  by (induction xs) (auto split: sum.splits)

lemma mapStages_total:
  "(\<And>x. x \<in> set xs \<Longrightarrow> \<exists>s. f x = Inr s) \<Longrightarrow> \<exists>out. mapStages f xs = Inr out"
proof (induction xs)
  case Nil
  show ?case by simp
next
  case (Cons x xs)
  from Cons.prems obtain s where "f x = Inr s" by auto
  moreover from Cons have "\<exists>out. mapStages f xs = Inr out" by simp
  ultimately show ?case by auto
qed

lemma mapDoneIssue_Inr:
  assumes "mapDoneIssue L stages activeStatuses passed dates = Inr out"
  shows "\<exists>st. doneLoop L passed (rev activeStatuses) (dates ''Done'', Map.empty) = Inr st \<and>
           out = map (\<lambda>stage. formatOrEmpty L
                        (if stage \<in> set activeStatuses then snd st stage else dates stage))
                   stages"
proof -
  let ?f = "\<lambda>st stage. formatLooked L
                    (if stage \<in> set activeStatuses
                     then tableGet (momentMember L) (snd st) stage
                     else tableGet (momentMember L) dates stage)"
  from assms obtain st where
    st: "doneLoop L passed (rev activeStatuses) (dates ''Done'', Map.empty) = Inr st"
    and m: "mapStages (?f st) stages = Inr out"
    by (auto simp: mapDoneIssue_def Let_def entryOf_tableGet_moment split: sum.splits)
  from mapStages_Inr[OF m] have len: "length out = length stages"
    and nth: "\<And>i. i < length stages \<Longrightarrow> ?f st (stages ! i) = Inr (out ! i)" by simp_all
  have "out = map (\<lambda>stage. formatOrEmpty L
                        (if stage \<in> set activeStatuses then snd st stage else dates stage))
                   stages"
  proof (rule nth_equalityI)
    show "length out = length (map (\<lambda>stage. formatOrEmpty L
                        (if stage \<in> set activeStatuses then snd st stage else dates stage))
                   stages)" by (simp add: len)
  next
    fix i assume "i < length out"
    then have i: "i < length stages" by (simp add: len)
    from nth[OF i] show "out ! i = map (\<lambda>stage. formatOrEmpty L
                        (if stage \<in> set activeStatuses then snd st stage else dates stage))
                   stages ! i"
      using i by (auto dest: formatLooked_table split: if_splits)
  qed
  with st show ?thesis by blast
qed

subsection \<open>The forward loop\<close>

lemma notDoneLoop_length:
  "notDoneLoop L A passed dates stages c = Inr (out, c') \<Longrightarrow> length out = length stages"
proof (induction stages arbitrary: c out)
  case Nil
  then show ?case by simp
next
  case (Cons s stages)
  then show ?case by (auto split: sum.splits)
qed

lemma notDoneLoop_append:
  "notDoneLoop L A passed dates (xs @ ys) c =
     (case notDoneLoop L A passed dates xs c of
        Inl e \<Rightarrow> Inl e
      | Inr q \<Rightarrow>
          (case notDoneLoop L A passed dates ys (snd q) of
             Inl e \<Rightarrow> Inl e
           | Inr q' \<Rightarrow> Inr (fst q @ fst q', snd q')))"
  by (induction xs arbitrary: c) (auto split: sum.splits)

lemma notDoneLoop_nth:
  assumes "notDoneLoop L A passed dates stages c = Inr (out, c')" and "i < length stages"
  shows "\<exists>pre ci cj. notDoneLoop L A passed dates (take i stages) c = Inr (pre, ci) \<and>
           notDoneStage L A passed dates (stages ! i) ci = Inr (out ! i, cj)"
  using assms
proof (induction stages arbitrary: c out i c')
  case Nil
  then show ?case by simp
next
  case (Cons s stages)
  from Cons.prems(1) obtain r q where
    r: "notDoneStage L A passed dates s c = Inr r" and
    q: "notDoneLoop L A passed dates stages (snd r) = Inr q" and
    out: "out = fst r # fst q" and c': "c' = snd q"
    by (auto split: sum.splits)
  show ?case
  proof (cases i)
    case 0
    with r out show ?thesis by (cases r) simp
  next
    case (Suc j)
    with Cons.prems(2) have j: "j < length stages" by simp
    from q have "notDoneLoop L A passed dates stages (snd r) = Inr (fst q, snd q)" by simp
    from Cons.IH[OF this j] obtain pre ci cj where
      "notDoneLoop L A passed dates (take j stages) (snd r) = Inr (pre, ci)"
      "notDoneStage L A passed dates (stages ! j) ci = Inr (fst q ! j, cj)" by blast
    with r Suc out show ?thesis by simp
  qed
qed



section \<open>The derived tables\<close>

subsection \<open>The transition sequence\<close>

lemma annotate_toString: "map toString (annotate prev xs) = map toString xs"
  by (induction xs arbitrary: prev) auto

lemma annotate_created: "map created (annotate prev xs) = map created xs"
  by (induction xs arbitrary: prev) auto

lemma annotate_fromString: "map fromString (annotate prev xs) = map fromString xs"
  by (induction xs arbitrary: prev) auto

lemma annotate_length: "length (annotate prev xs) = length xs"
  by (induction xs arbitrary: prev) auto

lemma processHistories_sorted: "sorted (map created (processHistories issue))"
  by (simp add: processHistories_def annotate_created)

lemma annotate_pairs:
  "map (\<lambda>i. (toString i, created i)) (annotate prev xs) = map (\<lambda>i. (toString i, created i)) xs"
  by (induction xs arbitrary: prev) auto

lemma statusEntries_iff:
  "e \<in> set (statusEntries issue) \<longleftrightarrow>
   (\<exists>h \<in> set (changelog_histories issue).
      e = (history_created h,
           filter (\<lambda>historyItem. item_field historyItem = ''status'') (history_items h)) \<and>
      snd e \<noteq> [])"
  unfolding statusEntries_def by auto

lemma computedItems_iff:
  "i \<in> set (computedItems e) \<longleftrightarrow>
   (\<exists>it \<in> set (snd e).
      i = \<lparr>fromString = item_fromString it, toString = item_toString it,
           created = fst e, previousCreated = None\<rparr>)"
  unfolding computedItems_def by auto

lemma computed_pairs:
  "(\<lambda>i. (toString i, created i)) ` set (concat (map computedItems (statusEntries issue))) =
   {(item_toString it, history_created h) | h it.
      h \<in> set (changelog_histories issue) \<and> it \<in> set (history_items h) \<and>
      item_field it = ''status''}"
  (is "?lhs = ?rhs")
proof (intro set_eqI iffI)
  fix p
  assume "p \<in> ?lhs"
  then obtain i e where e: "e \<in> set (statusEntries issue)" and i: "i \<in> set (computedItems e)"
    and p: "p = (toString i, created i)"
    by auto
  from e obtain h where h: "h \<in> set (changelog_histories issue)"
    and eh: "e = (history_created h,
           filter (\<lambda>historyItem. item_field historyItem = ''status'') (history_items h))"
    unfolding statusEntries_iff by blast
  from i obtain it where it: "it \<in> set (snd e)"
    and ii: "i = \<lparr>fromString = item_fromString it, toString = item_toString it,
           created = fst e, previousCreated = None\<rparr>"
    unfolding computedItems_iff by blast
  from it eh have "it \<in> set (history_items h)" "item_field it = ''status''" by simp_all
  moreover from p ii eh have "p = (item_toString it, history_created h)" by simp
  ultimately show "p \<in> ?rhs" using h by blast
next
  fix p
  assume "p \<in> ?rhs"
  then obtain h it where h: "h \<in> set (changelog_histories issue)"
    and it: "it \<in> set (history_items h)" "item_field it = ''status''"
    and p: "p = (item_toString it, history_created h)"
    by blast
  define e where "e = (history_created h,
           filter (\<lambda>historyItem. item_field historyItem = ''status'') (history_items h))"
  define i where "i = \<lparr>fromString = item_fromString it, toString = item_toString it,
           created = fst e, previousCreated = None\<rparr>"
  from it have mem: "it \<in> set (snd e)" by (simp add: e_def)
  then have "snd e \<noteq> []" by auto
  with h have "e \<in> set (statusEntries issue)"
    unfolding statusEntries_iff e_def by blast
  moreover from mem have "i \<in> set (computedItems e)"
    unfolding computedItems_iff i_def by blast
  ultimately have "i \<in> set (concat (map computedItems (statusEntries issue)))" by auto
  moreover have "p = (toString i, created i)" by (simp add: p i_def e_def)
  ultimately show "p \<in> ?lhs" by blast
qed

lemma processHistories_pairs:
  "(\<lambda>i. (toString i, created i)) ` set (processHistories issue) =
   {(item_toString it, history_created h) | h it.
      h \<in> set (changelog_histories issue) \<and> it \<in> set (history_items h) \<and>
      item_field it = ''status''}"
proof -
  have "(\<lambda>i. (toString i, created i)) ` set (processHistories issue) =
        set (map (\<lambda>i. (toString i, created i)) (processHistories issue))"
    by simp
  also have "\<dots> = set (map (\<lambda>i. (toString i, created i))
                      (sort_key created (concat (map computedItems (statusEntries issue)))))"
    unfolding processHistories_def annotate_pairs ..
  also have "\<dots> = (\<lambda>i. (toString i, created i)) `
                    set (concat (map computedItems (statusEntries issue)))"
    by simp
  finally show ?thesis by (simp only: computed_pairs)
qed

lemma find_first_sorted:
  "find P xs = Some x \<Longrightarrow> sorted (map f xs) \<Longrightarrow> y \<in> set xs \<Longrightarrow> P y \<Longrightarrow> f x \<le> f y"
  by (induction xs) (auto split: if_splits)

lemma find_same_columns:
  "map toString xs = map toString ys \<Longrightarrow> map created xs = map created ys \<Longrightarrow>
   map_option created (find (\<lambda>i. toString i = t) xs) =
   map_option created (find (\<lambda>i. toString i = t) ys)"
proof (induction xs arbitrary: ys)
  case Nil
  then show ?case by simp
next
  case (Cons x xs)
  then obtain y ys' where ys: "ys = y # ys'" by (cases ys) auto
  with Cons.prems have "toString x = toString y" "created x = created y"
    "map toString xs = map toString ys'" "map created xs = map created ys'" by auto
  with Cons.IH ys show ?case by simp
qed

lemma reduceStage_toString:
  "map toString (fst (reduceStage L issue stage items c acc)) = map toString items"
  by (induction items arbitrary: c acc) (auto simp: Let_def)

lemma reduceStage_created:
  "map created (fst (reduceStage L issue stage items c acc)) = map created items"
  by (induction items arbitrary: c acc) (auto simp: Let_def)

lemma reduceStage_fromString:
  "map fromString (fst (reduceStage L issue stage items c acc)) = map fromString items"
  by (induction items arbitrary: c acc) (auto simp: Let_def)

subsection \<open>The duration records\<close>

lemma forEachActive_toString:
  "forEachActive L issue ss (items, c, passed) = Inr r \<Longrightarrow>
   map toString (fst r) = map toString items"
proof (induction ss arbitrary: items c passed)
  case Nil
  then show ?case by auto
next
  case (Cons s ss)
  then show ?case
    by (auto simp: Let_def reduceStage_toString split: sum.splits)
qed

lemma forEachActive_created:
  "forEachActive L issue ss (items, c, passed) = Inr r \<Longrightarrow>
   map created (fst r) = map created items"
proof (induction ss arbitrary: items c passed)
  case Nil
  then show ?case by auto
next
  case (Cons s ss)
  then show ?case
    by (auto simp: Let_def reduceStage_created split: sum.splits)
qed

lemma forEachActive_dom:
  "forEachActive L issue ss (items, c, passed) = Inr r \<Longrightarrow>
   dom (snd (snd r)) = dom passed \<union> set ss"
proof (induction ss arbitrary: items c passed)
  case Nil
  then show ?case by auto
next
  case (Cons s ss)
  from Cons.prems obtain passed' where
    w: "tableSet passed s (snd (snd (reduceStage L issue s items c
          \<lparr>didHappen = False, passedDays = 0\<rparr>))) = Inr passed'"
    and rest: "forEachActive L issue ss
          (fst (reduceStage L issue s items c \<lparr>didHappen = False, passedDays = 0\<rparr>),
           fst (snd (reduceStage L issue s items c \<lparr>didHappen = False, passedDays = 0\<rparr>)),
           passed') = Inr r"
    by (auto simp: Let_def split: sum.splits)
  from tableSet_Inr[OF w] have "dom passed' = insert s (dom passed)" by auto
  with Cons.IH[OF rest] show ?case by auto
qed

lemma forEachActive_total:
  "''size'' \<notin> set ss \<Longrightarrow> \<exists>r. forEachActive L issue ss (items, c, passed) = Inr r"
proof (induction ss arbitrary: items c passed)
  case Nil
  show ?case by simp
next
  case (Cons s ss)
  then have "s \<noteq> ''size''" "''size'' \<notin> set ss" by auto
  with Cons.IH show ?case by (simp add: Let_def tableSet_other)
qed

lemma forEachActive_proto:
  "forEachActive L issue ss (items, c, passed) = Inr r \<Longrightarrow> ''__proto__'' \<notin> set ss \<Longrightarrow>
   snd (snd r) ''__proto__'' = passed ''__proto__''"
proof (induction ss arbitrary: items c passed)
  case Nil
  then show ?case by auto
next
  case (Cons s ss)
  then show ?case
    by (auto simp: Let_def split: sum.splits dest!: tableSet_Inr)
qed

subsection \<open>The dates of the inactive stages\<close>

lemma forEachInactive_lookup:
  "forEachInactive L items ss dates = Inr D \<Longrightarrow>
   D s =
     (if s \<in> set ss
      then (case find (\<lambda>item. toString item = Some s) items of
              None \<Rightarrow> dates s
            | Some it \<Rightarrow> Some (moment L (splitT (created it))))
      else dates s)"
proof (induction ss arbitrary: dates)
  case Nil
  then show ?case by simp
next
  case (Cons x ss)
  then show ?case
    by (auto split: option.splits sum.splits dest!: tableSet_Inr)
qed

lemma forEachInactive_total:
  "''size'' \<notin> set ss \<Longrightarrow> \<exists>D. forEachInactive L items ss dates = Inr D"
proof (induction ss arbitrary: dates)
  case Nil
  show ?case by simp
next
  case (Cons s ss)
  then have "s \<noteq> ''size''" "''size'' \<notin> set ss" by auto
  with Cons.IH show ?case by (simp add: tableSet_other split: option.splits)
qed

lemma forEachInactive_no_items: "forEachInactive L [] ss dates = Inr dates"
  by (induction ss) simp_all

text \<open>The tables when neither pass over the stages throws.\<close>

lemma tables_of_passes:
  assumes "processActiveStatuses L issue stages activeStatuses (processHistories issue)
             Map.empty = Inr r"
    and "processInactiveStates L stages activeStatuses (fst r) Map.empty = Inr D"
  shows "passedDaysTable L issue stages activeStatuses = snd (snd r)"
    and "anchorDate L issue stages activeStatuses = fst (snd r)"
    and "inactiveDatesTable L issue stages activeStatuses = D"
  using assms by (simp_all add: passedDaysTable_def anchorDate_def inactiveDatesTable_def)

lemma getStagingDates_cases:
  "getStagingDates L issue stages activeStatuses =
     (case processActiveStatuses L issue stages activeStatuses (processHistories issue)
             Map.empty of
        Inl e \<Rightarrow> Inl e
      | Inr r \<Rightarrow>
          (case processInactiveStates L stages activeStatuses (fst r) Map.empty of
             Inl e \<Rightarrow> Inl e
           | Inr D \<Rightarrow>
               (case D ''Done'' of
                  None \<Rightarrow> mapNotDoneIssue L stages activeStatuses (snd (snd r)) D (fst (snd r))
                | Some isDoneDate \<Rightarrow> mapDoneIssue L stages activeStatuses (snd (snd r)) D)))"
  by (simp add: getStagingDates_def Let_def truthy_Done split: sum.splits option.splits)

lemma getStagingDates_passes:
  assumes "getStagingDates L issue stages activeStatuses = Inr out"
  shows "\<exists>r D. processActiveStatuses L issue stages activeStatuses (processHistories issue)
             Map.empty = Inr r \<and>
           processInactiveStates L stages activeStatuses (fst r) Map.empty = Inr D"
  using assms unfolding getStagingDates_cases by (auto split: sum.splits)

lemma getStagingDates_tables:
  assumes "processActiveStatuses L issue stages activeStatuses (processHistories issue)
             Map.empty = Inr r"
    and "processInactiveStates L stages activeStatuses (fst r) Map.empty = Inr D"
  shows "getStagingDates L issue stages activeStatuses =
     (case inactiveDatesTable L issue stages activeStatuses ''Done'' of
        None \<Rightarrow>
          mapNotDoneIssue L stages activeStatuses
            (passedDaysTable L issue stages activeStatuses)
            (inactiveDatesTable L issue stages activeStatuses)
            (anchorDate L issue stages activeStatuses)
      | Some isDoneDate \<Rightarrow>
          mapDoneIssue L stages activeStatuses
            (passedDaysTable L issue stages activeStatuses)
            (inactiveDatesTable L issue stages activeStatuses))"
  unfolding tables_of_passes[OF assms] getStagingDates_cases using assms by simp

lemma getStagingDates_returned:
  assumes "getStagingDates L issue stages activeStatuses = Inr out"
  shows "(case inactiveDatesTable L issue stages activeStatuses ''Done'' of
        None \<Rightarrow>
          mapNotDoneIssue L stages activeStatuses
            (passedDaysTable L issue stages activeStatuses)
            (inactiveDatesTable L issue stages activeStatuses)
            (anchorDate L issue stages activeStatuses)
      | Some isDoneDate \<Rightarrow>
          mapDoneIssue L stages activeStatuses
            (passedDaysTable L issue stages activeStatuses)
            (inactiveDatesTable L issue stages activeStatuses)) = Inr out"
proof -
  from getStagingDates_passes[OF assms] obtain r D where
    "processActiveStatuses L issue stages activeStatuses (processHistories issue)
             Map.empty = Inr r"
    "processInactiveStates L stages activeStatuses (fst r) Map.empty = Inr D" by blast
  from getStagingDates_tables[OF this] assms show ?thesis by simp
qed

lemma passedDaysTable_dom:
  assumes "processActiveStatuses L issue stages activeStatuses (processHistories issue)
             Map.empty = Inr r"
  shows "dom (snd (snd r)) = {s \<in> set stages. s \<in> set activeStatuses}"
  using forEachActive_dom[OF assms[unfolded processActiveStatuses_def]] by auto

lemma inactiveDatesTable_lookup:
  assumes pa: "processActiveStatuses L issue stages activeStatuses (processHistories issue)
             Map.empty = Inr r"
    and pi: "processInactiveStates L stages activeStatuses (fst r) Map.empty = Inr D"
  shows "D s =
     (if s \<in> set stages \<and> s \<notin> set activeStatuses
      then map_option (\<lambda>c. moment L (splitT c))
             (map_option created (find (\<lambda>item. toString item = Some s) (processHistories issue)))
      else None)"
proof -
  define f where "f = find (\<lambda>item. toString item = Some s) (fst r)"
  have same: "map_option created f =
        map_option created (find (\<lambda>item. toString item = Some s) (processHistories issue))"
    unfolding f_def
    by (rule find_same_columns)
       (simp_all add: forEachActive_toString[OF pa[unfolded processActiveStatuses_def]]
          forEachActive_created[OF pa[unfolded processActiveStatuses_def]])
  have c: "(case f of None \<Rightarrow> None | Some it \<Rightarrow> Some (moment L (splitT (created it)))) =
        map_option (\<lambda>c. moment L (splitT c)) (map_option created f)"
    by (cases f) simp_all
  have "D s =
     (if s \<in> set stages \<and> s \<notin> set activeStatuses
      then (case f of None \<Rightarrow> None | Some it \<Rightarrow> Some (moment L (splitT (created it))))
      else None)"
    unfolding f_def
    using forEachInactive_lookup[OF pi[unfolded processInactiveStates_def], of s]
    by simp
  then show ?thesis unfolding c same .
qed

lemma mapNotDoneIssue_Inr:
  assumes "mapNotDoneIssue L stages activeStatuses passed dates c = Inr out"
  shows "\<exists>c'. notDoneLoop L activeStatuses passed dates stages c = Inr (out, c')"
  using assms by (auto simp: mapNotDoneIssue_def split: sum.splits)

lemma forEachActive_no_items:
  "''size'' \<notin> set ss \<Longrightarrow>
   forEachActive L issue ss ([], c, passed) =
     Inr ([], c, \<lambda>s. if s \<in> set ss then Some \<lparr>didHappen = False, passedDays = 0\<rparr> else passed s)"
proof (induction ss arbitrary: passed)
  case Nil
  show ?case by simp
next
  case (Cons s ss)
  then have s: "s \<noteq> ''size''" and ss: "''size'' \<notin> set ss" by auto
  have eq: "(\<lambda>x. if x \<in> set ss then Some \<lparr>didHappen = False, passedDays = 0\<rparr>
                 else (passed(s \<mapsto> \<lparr>didHappen = False, passedDays = 0\<rparr>)) x) =
            (\<lambda>x. if x \<in> set (s # ss) then Some \<lparr>didHappen = False, passedDays = 0\<rparr>
                 else passed x)"
    by (auto simp: fun_eq_iff)
  show ?case
    by (simp add: Let_def tableSet_other[OF s] Cons.IH[OF ss] eq del: fun_upd_apply)
qed

lemma notDoneLoop_all_empty:
  assumes "\<And>s. dates s = None"
    and "\<And>s. s \<in> set stages \<Longrightarrow> s \<notin> set inheritedNames"
    and "\<And>s. s \<in> set stages \<Longrightarrow> s \<in> set A \<Longrightarrow>
            passed s = Some \<lparr>didHappen = False, passedDays = 0\<rparr>"
  shows "notDoneLoop L A passed dates stages c = Inr (replicate (length stages) [], c)"
  using assms(2,3)
proof (induction stages)
  case Nil
  show ?case by simp
next
  case (Cons s stages)
  have plain: "s \<notin> set inheritedNames" using Cons.prems(1) by simp
  have look: "tableGet (momentMember L) dates s = Missing"
    by (simp add: tableGet_plain[OF assms(1) plain] assms(1))
  have step: "notDoneStage L A passed dates s c = Inr ([], c)"
  proof (cases "s \<in> set A")
    case True
    with Cons.prems have "passed s = Some \<lparr>didHappen = False, passedDays = 0\<rparr>" by simp
    then have "tableGet recordMember passed s = Entry \<lparr>didHappen = False, passedDays = 0\<rparr>"
      by (rule tableGet_own)
    with True show ?thesis by (simp add: notDoneStage_def look Let_def)
  next
    case False
    then show ?thesis by (simp add: notDoneStage_def look formatLooked_def Let_def)
  qed
  have "notDoneLoop L A passed dates stages c = Inr (replicate (length stages) [], c)"
    by (rule Cons.IH) (simp_all add: Cons.prems)
  with step show ?case by simp
qed

lemma processHistories_no_status:
  assumes "\<forall>h \<in> set (changelog_histories issue). \<forall>it \<in> set (history_items h).
             item_field it \<noteq> ''status''"
  shows "processHistories issue = []"
proof (cases "processHistories issue")
  case Nil
  then show ?thesis .
next
  case (Cons i rest)
  then have "i \<in> set (processHistories issue)" by simp
  then have "(toString i, created i) \<in>
      (\<lambda>i. (toString i, created i)) ` set (processHistories issue)" by blast
  then have False unfolding processHistories_pairs using assms by blast
  then show ?thesis ..
qed

lemma processHistories_pairs_iff:
  "(t, c) \<in> (\<lambda>i. (toString i, created i)) ` set (processHistories issue) \<longleftrightarrow>
   (\<exists>h \<in> set (changelog_histories issue). \<exists>it \<in> set (history_items h).
      item_field it = ''status'' \<and> item_toString it = t \<and> history_created h = c)"
  unfolding processHistories_pairs by auto

lemma first_entering_transition:
  assumes "\<exists>h \<in> set (changelog_histories issue). \<exists>it \<in> set (history_items h).
             item_field it = ''status'' \<and> item_toString it = Some s"
  shows "\<exists>x. find (\<lambda>item. toString item = Some s) (processHistories issue) = Some x \<and>
           (\<exists>h \<in> set (changelog_histories issue). \<exists>it \<in> set (history_items h).
              item_field it = ''status'' \<and> item_toString it = Some s \<and>
              history_created h = created x) \<and>
           (\<forall>h' \<in> set (changelog_histories issue). \<forall>it' \<in> set (history_items h').
              item_field it' = ''status'' \<and> item_toString it' = Some s \<longrightarrow>
              created x \<le> history_created h')"
proof -
  let ?pairs = "(\<lambda>i. (toString i, created i)) ` set (processHistories issue)"
  from assms obtain h0 it0 where "h0 \<in> set (changelog_histories issue)"
    "it0 \<in> set (history_items h0)" "item_field it0 = ''status''" "item_toString it0 = Some s"
    by blast
  then have "(Some s, history_created h0) \<in> ?pairs"
    unfolding processHistories_pairs_iff by blast
  then obtain y where "y \<in> set (processHistories issue)" "toString y = Some s" by auto
  then have "find (\<lambda>item. toString item = Some s) (processHistories issue) \<noteq> None"
    by (auto simp: find_None_iff)
  then obtain x where x: "find (\<lambda>item. toString item = Some s) (processHistories issue) = Some x"
    by auto
  then have xin: "x \<in> set (processHistories issue)" and xs: "toString x = Some s"
    by (auto simp: find_Some_iff)
  then have "(Some s, created x) \<in> ?pairs" by force
  then have ex: "\<exists>h \<in> set (changelog_histories issue). \<exists>it \<in> set (history_items h).
              item_field it = ''status'' \<and> item_toString it = Some s \<and>
              history_created h = created x"
    unfolding processHistories_pairs_iff .
  have "created x \<le> history_created h'"
    if "h' \<in> set (changelog_histories issue)" "it' \<in> set (history_items h')"
      "item_field it' = ''status''" "item_toString it' = Some s" for h' it'
  proof -
    from that have "(Some s, history_created h') \<in> ?pairs"
      unfolding processHistories_pairs_iff by blast
    then obtain z where z: "z \<in> set (processHistories issue)" "toString z = Some s"
      "created z = history_created h'" by auto
    from find_first_sorted[OF x processHistories_sorted z(1) z(2)] z(3)
    show ?thesis by simp
  qed
  with x ex show ?thesis by blast
qed

lemma filter_members:
  "filter (\<lambda>stage. stage \<in> set (filter (\<lambda>s. s \<in> set stages) A)) stages =
   filter (\<lambda>stage. stage \<in> set A) stages"
  by (rule filter_cong) auto

lemma filter_nonmembers:
  "filter (\<lambda>stage. stage \<notin> set (filter (\<lambda>s. s \<in> set stages) A)) stages =
   filter (\<lambda>stage. stage \<notin> set A) stages"
  by (rule filter_cong) auto

lemma processActiveStatuses_members:
  "processActiveStatuses L issue stages (filter (\<lambda>s. s \<in> set stages) A) items m =
   processActiveStatuses L issue stages A items m"
  by (simp only: processActiveStatuses_def filter_members)

lemma processInactiveStates_members:
  "processInactiveStates L stages (filter (\<lambda>s. s \<in> set stages) A) items m =
   processInactiveStates L stages A items m"
  by (simp only: processInactiveStates_def filter_nonmembers)

lemma inactiveDatesTable_members:
  "inactiveDatesTable L issue stages (filter (\<lambda>s. s \<in> set stages) A) =
   inactiveDatesTable L issue stages A"
  by (simp only: inactiveDatesTable_def processInactiveStates_members
      processActiveStatuses_members)

section \<open>When the call returns\<close>

lemma reduceStage_anchor_kept:
  "c \<noteq> None \<Longrightarrow> fst (snd (reduceStage L issue stage items c acc)) \<noteq> None"
  by (induction items arbitrary: c acc) (auto simp: Let_def split: option.splits)

lemma reduceStage_anchor_set:
  "didHappen (snd (snd (reduceStage L issue stage items c acc))) \<Longrightarrow> \<not> didHappen acc \<Longrightarrow>
   fst (snd (reduceStage L issue stage items c acc)) \<noteq> None"
proof (induction items arbitrary: c acc)
  case Nil
  then show ?case by simp
next
  case (Cons item items)
  show ?case
  proof (cases "fromString item = Some stage")
    case True
    then show ?thesis
      by (simp add: Let_def reduceStage_anchor_kept split: option.splits)
  next
    case False
    with Cons show ?thesis by (simp add: Let_def)
  qed
qed

lemma forEachActive_anchor:
  assumes "\<And>s r. passed s = Some r \<Longrightarrow> didHappen r \<Longrightarrow> c \<noteq> None"
    and "forEachActive L issue ss (items, c, passed) = Inr q"
    and "snd (snd q) s = Some r"
    and "didHappen r"
  shows "fst (snd q) \<noteq> None"
  using assms
proof (induction ss arbitrary: items c passed)
  case Nil
  then show ?case by auto
next
  case (Cons stage ss)
  define p where "p = reduceStage L issue stage items c \<lparr>didHappen = False, passedDays = 0\<rparr>"
  from Cons.prems(2) obtain passed' where
    w: "tableSet passed stage (snd (snd p)) = Inr passed'"
    and rest: "forEachActive L issue ss (fst p, fst (snd p), passed') = Inr q"
    by (auto simp: Let_def p_def split: sum.splits)
  from tableSet_Inr[OF w] have passed': "passed' = passed(stage \<mapsto> snd (snd p))" .
  have inv: "fst (snd p) \<noteq> None"
    if "passed' s' = Some r'" "didHappen r'" for s' r'
  proof (cases "s' = stage")
    case True
    with that have "didHappen (snd (snd p))" by (simp add: passed')
    then show ?thesis unfolding p_def by (rule reduceStage_anchor_set) simp
  next
    case False
    with that have "passed s' = Some r'" by (simp add: passed')
    then have "c \<noteq> None" using that(2) by (rule Cons.prems(1))
    then show ?thesis unfolding p_def by (rule reduceStage_anchor_kept)
  qed
  show ?case
    by (rule Cons.IH[OF inv rest Cons.prems(3) Cons.prems(4)])
qed

lemma anchorDate_set:
  assumes "processActiveStatuses L issue stages activeStatuses items Map.empty = Inr q"
    and "snd (snd q) s = Some r" and "didHappen r"
  shows "fst (snd q) \<noteq> None"
  by (rule forEachActive_anchor[OF _ assms(1)[unfolded processActiveStatuses_def] assms(2,3)])
     simp

lemma notDoneLoop_total:
  assumes records: "\<And>s. s \<in> set stages \<Longrightarrow> s \<in> set A \<Longrightarrow> passed s \<noteq> None"
    and cursor: "\<And>s r. passed s = Some r \<Longrightarrow> didHappen r \<Longrightarrow> c \<noteq> None"
    and dones: "\<And>s. s \<in> set stages \<Longrightarrow> toLowerCase s = ''done'' \<Longrightarrow> dates s = None"
    and plain: "\<And>s. s \<in> set stages \<Longrightarrow> s \<notin> set inheritedNames"
    and proto: "dates ''__proto__'' = None"
  shows "\<exists>q. notDoneLoop L A passed dates stages c = Inr q"
  using records cursor dones plain
proof (induction stages arbitrary: c)
  case Nil
  show ?case by simp
next
  case (Cons s stages)
  have sp: "s \<notin> set inheritedNames" using Cons.prems(4) by simp
  have look: "tableGet (momentMember L) dates s =
      (case dates s of None \<Rightarrow> Missing | Some v \<Rightarrow> Entry v)"
    by (rule tableGet_plain[where table = dates, OF proto sp])
  have "\<exists>out c'. notDoneStage L A passed dates s c = Inr (out, c') \<and> (c \<noteq> None \<longrightarrow> c' \<noteq> None)"
  proof (cases "toLowerCase s = ''done''")
    case True
    with Cons.prems(3)[of s] have "dates s = None" by simp
    with True show ?thesis by (simp add: notDoneStage_def Let_def look)
  next
    case notDone: False
    show ?thesis
    proof (cases "s \<in> set A")
      case False
      with notDone show ?thesis
        by (simp add: notDoneStage_def Let_def look formatLooked_def split: option.splits)
    next
      case True
      with Cons.prems(1)[of s] obtain r where "passed s = Some r" by auto
      then have r: "passed s = Some r" "tableGet recordMember passed s = Entry r"
        by (simp_all add: tableGet_own)
      show ?thesis
      proof (cases "didHappen r")
        case False
        with r True notDone show ?thesis by (simp add: notDoneStage_def Let_def)
      next
        case happened: True
        with r Cons.prems(2) obtain d where "c = Some d" by blast
        with r True notDone happened show ?thesis by (simp add: notDoneStage_def Let_def)
      qed
    qed
  qed
  then obtain out c' where step: "notDoneStage L A passed dates s c = Inr (out, c')"
    and keep: "c \<noteq> None \<longrightarrow> c' \<noteq> None" by blast
  have "\<exists>q. notDoneLoop L A passed dates stages c' = Inr q"
  proof (rule Cons.IH)
    show "passed s' \<noteq> None" if "s' \<in> set stages" "s' \<in> set A" for s'
      using that Cons.prems(1)[of s'] by simp
    show "c' \<noteq> None" if "passed s' = Some r" "didHappen r" for s' r
      using that Cons.prems(2) keep by blast
    show "dates s' = None" if "s' \<in> set stages" "toLowerCase s' = ''done''" for s'
      using that Cons.prems(3)[of s'] by simp
    show "s' \<notin> set inheritedNames" if "s' \<in> set stages" for s'
      using that Cons.prems(4)[of s'] by simp
  qed
  with step show ?case by auto
qed

text \<open>The output of the Done branch when no stage is named like an inherited member.\<close>

lemma mapDoneIssue_total:
  assumes loop: "doneLoop L passed (rev activeStatuses) (dates ''Done'', Map.empty) = Inr st"
    and plain: "\<And>s. s \<in> set stages \<Longrightarrow> s \<notin> set inheritedNames"
    and proto: "dates ''__proto__'' = None" "snd st ''__proto__'' = None"
  shows "\<exists>out. mapDoneIssue L stages activeStatuses passed dates = Inr out"
proof -
  have "\<exists>out. mapStages
               (\<lambda>stage.
                  formatLooked L
                    (if stage \<in> set activeStatuses
                     then tableGet (momentMember L) (snd st) stage
                     else tableGet (momentMember L) dates stage))
               stages = Inr out"
  proof (rule mapStages_total)
    fix x assume "x \<in> set stages"
    then have x: "x \<notin> set inheritedNames" by (rule plain)
    show "\<exists>s. formatLooked L
                    (if x \<in> set activeStatuses
                     then tableGet (momentMember L) (snd st) x
                     else tableGet (momentMember L) dates x) = Inr s"
      by (simp add: tableGet_plain[where table = dates, OF proto(1) x]
          tableGet_plain[where table = "snd st", OF proto(2) x]
          formatLooked_def split: option.splits)
  qed
  with loop show ?thesis
    by (simp add: mapDoneIssue_def Let_def entryOf_tableGet_moment)
qed

lemma doneLoop_dom:
  "doneLoop L passed xs (c, dates) = Inr (c', dates') \<Longrightarrow> dom dates' \<subseteq> dom dates \<union> set xs"
proof (induction xs arbitrary: c dates)
  case Nil
  then show ?case by auto
next
  case (Cons x xs)
  show ?case
  proof (cases "\<exists>rx. tableGet recordMember passed x = Entry rx \<and> didHappen rx")
    case False
    with Cons.prems have "doneLoop L passed xs (c, dates) = Inr (c', dates')"
      by (auto split: looked.splits if_splits)
    from Cons.IH[OF this] show ?thesis by auto
  next
    case True
    then obtain rx where rx: "tableGet recordMember passed x = Entry rx" and h: "didHappen rx"
      by blast
    with Cons.prems obtain dx where
      loop: "doneLoop L passed xs
        (Some (businessSubtract L dx (passedDays rx)),
         dates(x \<mapsto> businessSubtract L dx (passedDays rx))) = Inr (c', dates')"
      by (auto simp: Let_def split: option.splits sum.splits dest!: tableSet_Inr)
    from Cons.IH[OF loop] show ?thesis by auto
  qed
qed


lemma reserved_names: "''size'' \<in> set inheritedNames" "''__proto__'' \<in> set inheritedNames"
  by (simp_all add: inheritedNames_def mapMembers_def objectMembers_def)

lemma returns_under_contract:
  assumes members: "set activeStatuses \<subseteq> set stages"
    and plain: "set stages \<inter> set inheritedNames = {}"
    and dones: "\<forall>s \<in> set stages. toLowerCase s = ''done'' \<longrightarrow>
                  s = ''Done'' \<or> s \<in> set activeStatuses"
  shows "\<exists>out. getStagingDates L issue stages activeStatuses = Inr out"
proof -
  from plain reserved_names have size: "''size'' \<notin> set stages"
    and proto: "''__proto__'' \<notin> set stages" by blast+
  from plain have names: "\<And>s. s \<in> set stages \<Longrightarrow> s \<notin> set inheritedNames" by blast
  from size have "''size'' \<notin> set (filter (\<lambda>stage. stage \<in> set activeStatuses) stages)"
    by simp
  from forEachActive_total[OF this] obtain r where
    pa: "processActiveStatuses L issue stages activeStatuses (processHistories issue)
           Map.empty = Inr r"
    unfolding processActiveStatuses_def by blast
  from size have "''size'' \<notin> set (filter (\<lambda>stage. stage \<notin> set activeStatuses) stages)"
    by simp
  from forEachInactive_total[OF this] obtain D where
    pi: "processInactiveStates L stages activeStatuses (fst r) Map.empty = Inr D"
    unfolding processInactiveStates_def by blast
  note look = inactiveDatesTable_lookup[OF pa pi]
  from proto have Dproto: "D ''__proto__'' = None" by (simp add: look)
  note dom = passedDaysTable_dom[OF pa]
  show ?thesis
  proof (cases "D ''Done''")
    case None
    have "\<exists>q. notDoneLoop L activeStatuses (snd (snd r)) D stages (fst (snd r)) = Inr q"
    proof (rule notDoneLoop_total)
      fix s assume "s \<in> set stages" "s \<in> set activeStatuses"
      then have "s \<in> dom (snd (snd r))" by (simp add: dom)
      then show "snd (snd r) s \<noteq> None" by auto
    next
      fix s q assume "snd (snd r) s = Some q" "didHappen q"
      with pa show "fst (snd r) \<noteq> None" by (rule anchorDate_set)
    next
      fix s assume s: "s \<in> set stages" "toLowerCase s = ''done''"
      with dones have "s = ''Done'' \<or> s \<in> set activeStatuses" by blast
      then show "D s = None"
      proof
        assume "s = ''Done''"
        with None show ?thesis by simp
      next
        assume "s \<in> set activeStatuses"
        then show ?thesis by (simp add: look)
      qed
    next
      fix s assume "s \<in> set stages"
      then show "s \<notin> set inheritedNames" by (rule names)
    next
      show "D ''__proto__'' = None" by (rule Dproto)
    qed
    with None pa pi show ?thesis
      by (auto simp: getStagingDates_cases mapNotDoneIssue_def)
  next
    case (Some d)
    from members have sub: "set (rev activeStatuses) \<subseteq> dom (snd (snd r))"
      by (auto simp: dom)
    from members size have "''size'' \<notin> set (rev activeStatuses)" by auto
    from doneLoop_total[OF sub this, of L d Map.empty] obtain st where
      loop: "doneLoop L (snd (snd r)) (rev activeStatuses) (Some d, Map.empty) = Inr st"
      by blast
    obtain c A where st: "st = (c, A)" by (cases st)
    from doneLoop_dom[OF loop[unfolded st]] have "dom A \<subseteq> set activeStatuses" by simp
    with members proto have "''__proto__'' \<notin> dom A" by blast
    then have Aproto: "snd st ''__proto__'' = None" by (auto simp: st)
    from loop Some have "doneLoop L (snd (snd r)) (rev activeStatuses)
        (D ''Done'', Map.empty) = Inr st" by simp
    from mapDoneIssue_total[OF this names Dproto Aproto, of stages]
    obtain out where "mapDoneIssue L stages activeStatuses (snd (snd r)) D = Inr out"
      by blast
    with Some pa pi show ?thesis by (simp add: getStagingDates_cases)
  qed
qed



section \<open>Writes reach new objects only\<close>

lemma length_setProp: "length (setProp st v k x) = length st"
  by (simp add: setProp_def split: jsval.splits)

lemma getElems_setProp: "getElems (setProp st v k x) w = getElems st w"
  by (auto simp: setProp_def getElems_def nth_list_update split: jsval.splits)

lemma take_setProp: "freshVal n v \<Longrightarrow> take n (setProp st v k x) = take n st"
  by (auto simp: setProp_def freshVal_def split: jsval.splits)

lemma allocItems_frame:
  "n \<le> length st \<Longrightarrow>
   take n (fst (allocItems st ps)) = take n st \<and>
   length st \<le> length (fst (allocItems st ps)) \<and>
   list_all (freshVal n) (snd (allocItems st ps))"
proof (induction ps arbitrary: st)
  case Nil
  then show ?case by simp
next
  case (Cons p ps)
  define st1 where "st1 = fst (alloc st
                \<lparr>obj_props = [(''fromString'', getProp st (snd p) ''fromString''),
                              (''toString'', getProp st (snd p) ''toString''),
                              (''created'', fst p)],
                 obj_elems = []\<rparr>)"
  have st1: "st1 = st @ [\<lparr>obj_props = [(''fromString'', getProp st (snd p) ''fromString''),
                              (''toString'', getProp st (snd p) ''toString''),
                              (''created'', fst p)],
                 obj_elems = []\<rparr>]"
    by (simp add: st1_def alloc_def)
  with Cons.prems have n1: "n \<le> length st1" by simp
  from Cons.IH[OF n1] have ih: "take n (fst (allocItems st1 ps)) = take n st1"
    "length st1 \<le> length (fst (allocItems st1 ps))"
    "list_all (freshVal n) (snd (allocItems st1 ps))" by simp_all
  from Cons.prems have "take n st1 = take n st" by (simp add: st1)
  moreover have "length st \<le> length st1" by (simp add: st1)
  moreover have "freshVal n (Ref (length st))" using Cons.prems by (simp add: freshVal_def)
  ultimately show ?case using ih
    by (simp add: Let_def alloc_def st1)
qed

lemma annotateStore_frame:
  "list_all (freshVal n) items \<Longrightarrow>
   take n (annotateStore st prev items) = take n st \<and>
   length (annotateStore st prev items) = length st \<and>
   (\<forall>w. getElems (annotateStore st prev items) w = getElems st w)"
proof (induction items arbitrary: st prev)
  case Nil
  show ?case by simp
next
  case (Cons item items)
  then have f: "freshVal n item" and rest: "list_all (freshVal n) items" by simp_all
  define st' where "st' = (if truthyVal prev
                 then setProp st item ''previousCreated'' prev else st)"
  have a: "take n st' = take n st" "length st' = length st"
    "\<And>w. getElems st' w = getElems st w"
    by (simp_all add: st'_def take_setProp[OF f] length_setProp getElems_setProp)
  from Cons.IH[OF rest, of st' "getProp st' item ''created''"] a
  show ?case by (simp add: Let_def st'_def[symmetric])
qed

lemma processHistoriesStore_frame:
  "take (length st) (fst (processHistoriesStore st issue)) = st \<and>
   length st \<le> length (fst (processHistoriesStore st issue)) \<and>
   list_all (freshVal (length st))
     (getElems (fst (processHistoriesStore st issue)) (snd (processHistoriesStore st issue)))"
proof -
  define n where "n = length st"
  define pairs where "pairs = concat (map (\<lambda>entry. map (\<lambda>item. (fst entry, item)) (snd entry))
                            (statusEntriesStore st issue))"
  define st0 where "st0 = fst (allocItems st pairs)"
  define refs where "refs = snd (allocItems st pairs)"
  define st1 where "st1 = st0 @ [\<lparr>obj_props = [], obj_elems = refs\<rparr>]"
  define sorted where
    "sorted = sort_key (\<lambda>v. strOf (getProp st1 v ''created'')) (obj_elems (st1 ! length st0))"
  define st2 where "st2 = st1[length st0 := (st1 ! length st0)\<lparr>obj_elems := sorted\<rparr>]"
  have res: "processHistoriesStore st issue =
      (annotateStore st2 Undefined (getElems st2 (Ref (length st0))), Ref (length st0))"
    by (simp add: processHistoriesStore_def Let_def alloc_def pairs_def st0_def refs_def
        st1_def sorted_def st2_def)
  have "n \<le> length st" by (simp add: n_def)
  from allocItems_frame[OF this, of pairs]
  have a: "take n st0 = take n st" "length st \<le> length st0" "list_all (freshVal n) refs"
    by (simp_all add: st0_def refs_def)
  have n0: "n \<le> length st0" using a(2) by (simp add: n_def)
  have t1: "take n st1 = take n st" using a(1) n0 by (simp add: st1_def)
  have t2: "take n st2 = take n st" using t1 n0 by (simp add: st2_def)
  have l2: "length st2 = Suc (length st0)" by (simp add: st2_def st1_def)
  have "obj_elems (st1 ! length st0) = refs" by (simp add: st1_def)
  then have "set sorted = set refs" by (simp add: sorted_def)
  with a(3) have fs: "list_all (freshVal n) sorted" by (simp add: list_all_iff)
  have e2: "getElems st2 (Ref (length st0)) = sorted"
    by (simp add: getElems_def st2_def st1_def)
  from annotateStore_frame[OF fs, of st2 Undefined] e2
  have f: "take n (annotateStore st2 Undefined sorted) = take n st2"
    "length (annotateStore st2 Undefined sorted) = length st2"
    "getElems (annotateStore st2 Undefined sorted) (Ref (length st0)) = sorted"
    by simp_all
  from f t2 l2 a(2) fs show ?thesis
    by (simp add: res e2 n_def)
qed

lemma reduceStore_frame:
  "list_all (freshVal n) items \<Longrightarrow>
   take n (fst (reduceStore L issue items st c acc)) = take n st \<and>
   length (fst (reduceStore L issue items st c acc)) = length st \<and>
   (\<forall>w. getElems (fst (reduceStore L issue items st c acc)) w = getElems st w)"
proof (induction items arbitrary: st c acc)
  case Nil
  show ?case by simp
next
  case (Cons item items)
  then have f: "freshVal n item" and rest: "list_all (freshVal n) items" by simp_all
  define st' where "st' = (if \<not> truthyVal (getProp st item ''previousCreated'')
                 then setProp st item ''previousCreated''
                        (getProp st (getProp st issue ''fields'') ''created'')
                 else st)"
  have a: "take n st' = take n st" "length st' = length st"
    "\<And>w. getElems st' w = getElems st w"
    by (simp_all add: st'_def take_setProp[OF f] length_setProp getElems_setProp)
  note ih = Cons.IH[OF rest, of st']
  show ?case
    by (simp add: Let_def st'_def[symmetric] ih a)
qed

lemma forEachActiveStore_frame:
  "list_all (freshVal n) (getElems st sortedItems) \<Longrightarrow>
   take n (fst (forEachActiveStore L issue sortedItems ss (st, c, passed))) = take n st \<and>
   length (fst (forEachActiveStore L issue sortedItems ss (st, c, passed))) = length st \<and>
   (\<forall>w. getElems (fst (forEachActiveStore L issue sortedItems ss (st, c, passed))) w =
          getElems st w)"
proof (induction ss arbitrary: st c passed)
  case Nil
  show ?case by simp
next
  case (Cons stage ss)
  define items where "items = filter (\<lambda>item. getProp st item ''fromString'' = Str stage)
                   (getElems st sortedItems)"
  define r where "r = reduceStore L issue items st c \<lparr>didHappen = False, passedDays = 0\<rparr>"
  from Cons.prems have "list_all (freshVal n) items"
    by (simp add: items_def list_all_iff)
  from reduceStore_frame[OF this, of L issue st c "\<lparr>didHappen = False, passedDays = 0\<rparr>"]
  have a: "take n (fst r) = take n st" "length (fst r) = length st"
    "\<And>w. getElems (fst r) w = getElems st w"
    by (simp_all add: r_def)
  with Cons.prems have fr: "list_all (freshVal n) (getElems (fst r) sortedItems)" by simp
  show ?case
  proof (cases "tableSet passed stage (snd (snd r))")
    case (Inl e)
    then have step: "forEachActiveStore L issue sortedItems (stage # ss) (st, c, passed) =
        (fst r, Inl e)"
      by (simp add: Let_def r_def items_def)
    show ?thesis unfolding step using a by simp
  next
    case (Inr passed')
    define y where "y = forEachActiveStore L issue sortedItems ss
          (fst r, fst (snd r), passed')"
    from Cons.IH[OF fr, of "fst (snd r)" passed']
    have ih: "take n (fst y) = take n (fst r)" "length (fst y) = length (fst r)"
      "\<And>w. getElems (fst y) w = getElems (fst r) w"
      unfolding y_def by blast+
    from Inr have step: "forEachActiveStore L issue sortedItems (stage # ss) (st, c, passed) = y"
      by (simp add: Let_def r_def items_def y_def)
    show ?thesis unfolding step using ih a by simp
  qed
qed

section \<open>The store model and the list model agree\<close>

lemma map_of_cons_filter:
  "map_of ((k, x) # filter (\<lambda>p. fst p \<noteq> k) ps) j = (if j = k then Some x else map_of ps j)"
  by (induction ps) auto

lemma map_of_filter_other:
  "j \<noteq> k \<Longrightarrow> map_of (filter (\<lambda>p. fst p \<noteq> k) ps) j = map_of ps j"
  by (induction ps) auto

lemma getProp_setProp:
  "getProp (setProp st v k x) w j =
     (if w = v \<and> j = k \<and> (\<exists>r. v = Ref r \<and> r < length st) then x else getProp st w j)"
proof (cases v)
  case (Ref r)
  show ?thesis
  proof (cases "r < length st")
    case True
    show ?thesis
    proof (cases w)
      case (Ref r')
      with \<open>v = Ref r\<close> True show ?thesis
        by (auto simp: getProp_def setProp_def nth_list_update map_of_filter_other)
    qed (simp_all add: getProp_def Ref)
  next
    case False
    with Ref show ?thesis by (simp add: setProp_def)
  qed
qed (simp_all add: setProp_def)

lemma loadComputedItem_setProp_other:
  "w \<noteq> v \<Longrightarrow> loadComputedItem (setProp st v k x) w = loadComputedItem st w"
  by (simp add: loadComputedItem_def getProp_setProp)

lemma loadComputedItem_setProp_previousCreated:
  "r < length st \<Longrightarrow>
   loadComputedItem (setProp st (Ref r) ''previousCreated'' x) (Ref r) =
     (loadComputedItem st (Ref r))\<lparr>previousCreated := optStr x\<rparr>"
  by (simp add: loadComputedItem_def getProp_setProp)

lemma truthy_optStr: "v = Undefined \<or> isStr v \<Longrightarrow> truthy (optStr v) = truthyVal v"
  by (cases v) auto

lemma isStr_optStr: "isStr v \<Longrightarrow> optStr v = Some (strOf v)"
  by (cases v) auto

lemma annotateStore_annotate:
  assumes "distinct rs"
    and "\<forall>v \<in> set rs. \<exists>r. v = Ref r \<and> r < length st"
    and "\<forall>v \<in> set rs. isStr (getProp st v ''created'')"
    and "prev = Undefined \<or> isStr prev"
  shows "map (loadComputedItem (annotateStore st prev rs)) rs =
           annotate (optStr prev) (map (loadComputedItem st) rs) \<and>
         (\<forall>w j. w \<notin> set rs \<or> j \<noteq> ''previousCreated'' \<longrightarrow>
            getProp (annotateStore st prev rs) w j = getProp st w j) \<and>
         (\<forall>v \<in> set rs. getProp (annotateStore st prev rs) v ''previousCreated'' = Undefined \<or>
            isStr (getProp (annotateStore st prev rs) v ''previousCreated'') \<or>
            getProp (annotateStore st prev rs) v ''previousCreated'' =
              getProp st v ''previousCreated'')"
  using assms
proof (induction rs arbitrary: st prev)
  case Nil
  show ?case by simp
next
  case (Cons v rs)
  from Cons.prems(2) obtain r where v: "v = Ref r" and r: "r < length st" by auto
  define st' where "st' = (if truthyVal prev then setProp st v ''previousCreated'' prev else st)"
  define prev' where "prev' = getProp st' v ''created''"
  have len: "length st' = length st" by (simp add: st'_def length_setProp)
  have keep: "\<And>w j. w \<noteq> v \<or> j \<noteq> ''previousCreated'' \<Longrightarrow> getProp st' w j = getProp st w j"
    by (auto simp: st'_def getProp_setProp)
  have prev'_eq: "prev' = getProp st v ''created''" by (simp add: prev'_def keep)
  with Cons.prems(3) have sprev: "isStr prev'" by simp
  have d: "distinct rs" and vn: "v \<notin> set rs" using Cons.prems(1) by simp_all
  have p2: "\<forall>w \<in> set rs. \<exists>r. w = Ref r \<and> r < length st'" using Cons.prems(2) len by simp
  have p3: "\<forall>w \<in> set rs. isStr (getProp st' w ''created'')"
    using Cons.prems(3) by (simp add: keep)
  from sprev have p4: "prev' = Undefined \<or> isStr prev'" by simp
  define fin where "fin = annotateStore st' prev' rs"
  have step: "annotateStore st prev (v # rs) = fin"
    by (simp add: st'_def prev'_def Let_def fin_def)
  note ih = Cons.IH[OF d p2 p3 p4, folded fin_def]
  have others: "\<And>w. w \<noteq> v \<Longrightarrow> loadComputedItem st' w = loadComputedItem st w"
    by (simp add: st'_def loadComputedItem_setProp_other)
  have tail: "map (loadComputedItem st') rs = map (loadComputedItem st) rs"
  proof (rule map_cong[OF refl])
    fix x assume "x \<in> set rs"
    with vn have "x \<noteq> v" by auto
    then show "loadComputedItem st' x = loadComputedItem st x" by (rule others)
  qed
  from ih vn have headprops: "\<And>j. getProp fin v j = getProp st' v j"
    by blast
  then have head1: "loadComputedItem fin v = loadComputedItem st' v"
    by (simp add: loadComputedItem_def)
  have head2: "loadComputedItem st' v =
      (if truthy (optStr prev) then (loadComputedItem st v)\<lparr>previousCreated := optStr prev\<rparr>
       else loadComputedItem st v)"
    using r by (simp add: st'_def v loadComputedItem_setProp_previousCreated
        truthy_optStr[OF Cons.prems(4)])
  have cr: "optStr prev' = Some (created (loadComputedItem st v))"
    using sprev by (simp add: isStr_optStr prev'_eq loadComputedItem_def)
  from ih have t: "map (loadComputedItem fin) rs =
      annotate (optStr prev') (map (loadComputedItem st') rs)" by blast
  have a: "map (loadComputedItem fin) (v # rs) =
           annotate (optStr prev) (map (loadComputedItem st) (v # rs))"
    by (simp add: head1 head2 t tail cr)
  have b: "\<forall>w j. w \<notin> set (v # rs) \<or> j \<noteq> ''previousCreated'' \<longrightarrow>
            getProp fin w j = getProp st w j"
  proof (intro allI impI)
    fix w j assume h: "w \<notin> set (v # rs) \<or> j \<noteq> ''previousCreated''"
    then have "w \<notin> set rs \<or> j \<noteq> ''previousCreated''" by auto
    with ih have "getProp fin w j = getProp st' w j" by blast
    moreover from h have "getProp st' w j = getProp st w j" by (intro keep) auto
    ultimately show "getProp fin w j = getProp st w j" by simp
  qed
  have pv: "getProp st' v ''previousCreated'' = Undefined \<or>
            isStr (getProp st' v ''previousCreated'') \<or>
            getProp st' v ''previousCreated'' = getProp st v ''previousCreated''"
    using Cons.prems(4) r by (auto simp: st'_def v getProp_setProp)
  have c: "\<forall>w \<in> set (v # rs).
            getProp fin w ''previousCreated'' = Undefined \<or>
            isStr (getProp fin w ''previousCreated'') \<or>
            getProp fin w ''previousCreated'' = getProp st w ''previousCreated''"
  proof
    fix w assume "w \<in> set (v # rs)"
    then consider "w = v" | "w \<in> set rs" "w \<noteq> v" using vn by auto
    then show "getProp fin w ''previousCreated'' = Undefined \<or>
            isStr (getProp fin w ''previousCreated'') \<or>
            getProp fin w ''previousCreated'' = getProp st w ''previousCreated''"
    proof cases
      case 1
      with pv headprops show ?thesis by simp
    next
      case 2
      with ih have "getProp fin w ''previousCreated'' = Undefined \<or>
            isStr (getProp fin w ''previousCreated'') \<or>
            getProp fin w ''previousCreated'' = getProp st' w ''previousCreated''" by blast
      moreover from 2 have "getProp st' w ''previousCreated'' = getProp st w ''previousCreated''"
        by (intro keep) simp
      ultimately show ?thesis by simp
    qed
  qed
  from a b c show ?case unfolding step by blast
qed

lemma optStr_eq_Some: "optStr x = Some s \<longleftrightarrow> x = Str s"
  by (cases x) auto

lemma reduceStore_reduceStage:
  assumes "distinct rs"
    and "\<forall>v \<in> set rs. \<exists>r. v = Ref r \<and> r < length st"
    and "\<forall>v \<in> set rs. getProp st v ''previousCreated'' = Undefined \<or>
           isStr (getProp st v ''previousCreated'')"
    and "isStr (getProp st (getProp st issue ''fields'') ''created'')"
    and "\<forall>v \<in> set rs. P v = (getProp st v ''fromString'' = Str stage)"
    and "fields_created issue' = strOf (getProp st (getProp st issue ''fields'') ''created'')"
  shows "reduceStage L issue' stage (map (loadComputedItem st) rs) c acc =
           (map (loadComputedItem (fst (reduceStore L issue (filter P rs) st c acc))) rs,
            snd (reduceStore L issue (filter P rs) st c acc)) \<and>
         length (fst (reduceStore L issue (filter P rs) st c acc)) = length st \<and>
         (\<forall>w j. w \<notin> set rs \<or> j \<noteq> ''previousCreated'' \<longrightarrow>
            getProp (fst (reduceStore L issue (filter P rs) st c acc)) w j = getProp st w j) \<and>
         (\<forall>v \<in> set rs.
            getProp (fst (reduceStore L issue (filter P rs) st c acc)) v ''previousCreated''
              = Undefined \<or>
            isStr (getProp (fst (reduceStore L issue (filter P rs) st c acc)) v
                     ''previousCreated''))"
  using assms
proof (induction rs arbitrary: st c acc)
  case Nil
  show ?case by simp
next
  case (Cons v rs)
  from Cons.prems(2) obtain r where v: "v = Ref r" and r: "r < length st" by auto
  have d: "distinct rs" and vn: "v \<notin> set rs" using Cons.prems(1) by simp_all
  define item where "item = loadComputedItem st v"
  show ?case
  proof (cases "P v")
    case False
    with Cons.prems(5) have nomatch: "fromString item \<noteq> Some stage"
      by (simp add: item_def loadComputedItem_def optStr_eq_Some)
    define res where "res = reduceStore L issue (filter P rs) st c acc"
    have filt: "filter P (v # rs) = filter P rs" using False by simp
    have p2: "\<forall>w \<in> set rs. \<exists>r. w = Ref r \<and> r < length st" using Cons.prems(2) by simp
    have p3: "\<forall>w \<in> set rs. getProp st w ''previousCreated'' = Undefined \<or>
           isStr (getProp st w ''previousCreated'')" using Cons.prems(3) by simp
    have p5: "\<forall>w \<in> set rs. P w = (getProp st w ''fromString'' = Str stage)"
      using Cons.prems(5) by simp
    note ih = Cons.IH[OF d p2 p3 Cons.prems(4) p5 Cons.prems(6), of c acc, folded res_def]
    from ih vn have same: "\<And>j. getProp (fst res) v j = getProp st v j" by blast
    then have head: "loadComputedItem (fst res) v = item"
      by (simp add: loadComputedItem_def item_def)
    have a: "reduceStage L issue' stage (map (loadComputedItem st) (v # rs)) c acc =
           (map (loadComputedItem (fst res)) (v # rs), snd res)"
      using ih nomatch by (simp add: item_def[symmetric] head Let_def)
    have b: "\<forall>w j. w \<notin> set (v # rs) \<or> j \<noteq> ''previousCreated'' \<longrightarrow>
            getProp (fst res) w j = getProp st w j"
      using ih by auto
    have e: "\<forall>w \<in> set (v # rs). getProp (fst res) w ''previousCreated'' = Undefined \<or>
            isStr (getProp (fst res) w ''previousCreated'')"
      using ih same Cons.prems(3) by auto
    from a b e ih show ?thesis unfolding filt res_def[symmetric] by blast
  next
    case True
    with Cons.prems(5) have match: "fromString item = Some stage"
      by (simp add: item_def loadComputedItem_def)
    define pv where "pv = getProp st v ''previousCreated''"
    define fcv where "fcv = getProp st (getProp st issue ''fields'') ''created''"
    define st' where "st' = (if \<not> truthyVal pv then setProp st v ''previousCreated'' fcv else st)"
    define start where "start = strOf (getProp st' v ''previousCreated'')"
    define c' where "c' = (case c of None \<Rightarrow> Some (moment L (splitT start)) | Some d \<Rightarrow> Some d)"
    define acc' where "acc' = \<lparr>didHappen = True,
        passedDays = passedDays acc +
          businessDiff L (moment L (splitT (strOf (getProp st' v ''created''))))
            (moment L (splitT start))\<rparr>"
    define res where "res = reduceStore L issue (filter P rs) st' c' acc'"
    have step: "reduceStore L issue (filter P (v # rs)) st c acc = res"
      unfolding res_def acc'_def c'_def start_def st'_def pv_def fcv_def
      using True by (simp only: filter.simps if_True reduceStore.simps Let_def)
    have len: "length st' = length st" by (simp add: st'_def length_setProp)
    have keep: "\<And>w j. w \<noteq> v \<or> j \<noteq> ''previousCreated'' \<Longrightarrow> getProp st' w j = getProp st w j"
      by (auto simp: st'_def getProp_setProp)
    from Cons.prems(3) have pvok: "pv = Undefined \<or> isStr pv" by (simp add: pv_def)
    from Cons.prems(4) have fcstr: "isStr fcv" by (simp add: fcv_def)
    have pv': "getProp st' v ''previousCreated'' = (if truthyVal pv then pv else fcv)"
      using r by (simp add: st'_def v getProp_setProp pv_def)
    have start_eq: "start = previousCreatedOr (previousCreated item) (fields_created issue')"
    proof (cases pv)
      case (Str s)
      then show ?thesis
        by (simp add: start_def pv' item_def loadComputedItem_def pv_def[symmetric]
            Cons.prems(6) fcv_def[symmetric])
    qed (use pvok in \<open>simp_all add: start_def pv' item_def loadComputedItem_def
            pv_def[symmetric] Cons.prems(6) fcv_def[symmetric]\<close>)
    have pcnew: "optStr (getProp st' v ''previousCreated'') = Some start"
    proof (cases pv)
      case (Str s)
      with fcstr show ?thesis by (cases fcv) (simp_all add: start_def pv')
    qed (use pvok fcstr in \<open>auto simp: start_def pv' isStr_optStr\<close>)
    have item': "loadComputedItem st' v = item\<lparr>previousCreated := Some start\<rparr>"
      by (simp add: loadComputedItem_def item_def keep pcnew)
    have cre: "strOf (getProp st' v ''created'') = created item"
      by (simp add: keep item_def loadComputedItem_def)
    have p2: "\<forall>w \<in> set rs. \<exists>r. w = Ref r \<and> r < length st'"
      using Cons.prems(2) len by simp
    have p3: "\<forall>w \<in> set rs. getProp st' w ''previousCreated'' = Undefined \<or>
           isStr (getProp st' w ''previousCreated'')"
    proof
      fix w assume w: "w \<in> set rs"
      with vn have "w \<noteq> v" by auto
      then have "getProp st' w ''previousCreated'' = getProp st w ''previousCreated''"
        by (intro keep) simp
      with Cons.prems(3) w show "getProp st' w ''previousCreated'' = Undefined \<or>
           isStr (getProp st' w ''previousCreated'')" by simp
    qed
    have p4: "isStr (getProp st' (getProp st' issue ''fields'') ''created'')"
      using Cons.prems(4) by (simp add: keep)
    have p5: "\<forall>w \<in> set rs. P w = (getProp st' w ''fromString'' = Str stage)"
      using Cons.prems(5) by (simp add: keep)
    have p6: "fields_created issue' = strOf (getProp st' (getProp st' issue ''fields'') ''created'')"
      using Cons.prems(6) by (simp add: keep)
    note ih = Cons.IH[OF d p2 p3 p4 p5 p6, of c' acc', folded res_def]
    from ih vn have same: "\<And>j. getProp (fst res) v j = getProp st' v j" by blast
    then have head: "loadComputedItem (fst res) v = item\<lparr>previousCreated := Some start\<rparr>"
      by (simp add: loadComputedItem_def item'[symmetric])
    have tail: "map (loadComputedItem st') rs = map (loadComputedItem st) rs"
    proof (rule map_cong[OF refl])
      fix x assume "x \<in> set rs"
      with vn have "x \<noteq> v" by auto
      then show "loadComputedItem st' x = loadComputedItem st x"
        by (simp add: loadComputedItem_def keep)
    qed
    from ih have rec: "reduceStage L issue' stage (map (loadComputedItem st') rs) c' acc' =
           (map (loadComputedItem (fst res)) rs, snd res)" by blast
    have a: "reduceStage L issue' stage (map (loadComputedItem st) (v # rs)) c acc =
           (map (loadComputedItem (fst res)) (v # rs), snd res)"
      using match rec
      by (simp add: item_def[symmetric] Let_def start_eq[symmetric] head tail
          c'_def[symmetric] acc'_def cre)
    have b: "\<forall>w j. w \<notin> set (v # rs) \<or> j \<noteq> ''previousCreated'' \<longrightarrow>
            getProp (fst res) w j = getProp st w j"
    proof (intro allI impI)
      fix w j assume h: "w \<notin> set (v # rs) \<or> j \<noteq> ''previousCreated''"
      then have "w \<notin> set rs \<or> j \<noteq> ''previousCreated''" by auto
      with ih have "getProp (fst res) w j = getProp st' w j" by blast
      moreover from h have "getProp st' w j = getProp st w j" by (intro keep) auto
      ultimately show "getProp (fst res) w j = getProp st w j" by simp
    qed
    have e: "\<forall>w \<in> set (v # rs). getProp (fst res) w ''previousCreated'' = Undefined \<or>
            isStr (getProp (fst res) w ''previousCreated'')"
    proof
      fix w assume "w \<in> set (v # rs)"
      then consider "w = v" | "w \<in> set rs" by auto
      then show "getProp (fst res) w ''previousCreated'' = Undefined \<or>
            isStr (getProp (fst res) w ''previousCreated'')"
      proof cases
        case 1
        from pcnew have "isStr (getProp st' v ''previousCreated'')"
          by (simp add: optStr_eq_Some)
        with 1 same show ?thesis by simp
      next
        case 2
        with ih show ?thesis by blast
      qed
    qed
    from ih len have l: "length (fst res) = length st" by simp
    from a b e l show ?thesis unfolding step by blast
  qed
qed

lemma reduceStore_getElems:
  "getElems (fst (reduceStore L issue items st c acc)) w = getElems st w"
  by (induction items arbitrary: st c acc) (simp_all add: Let_def getElems_setProp)

lemma forEachActiveStore_getElems:
  "getElems (fst (forEachActiveStore L issue sortedItems ss (st, c, passed))) w = getElems st w"
proof (induction ss arbitrary: st c passed)
  case Nil
  show ?case by simp
next
  case (Cons stage ss)
  then show ?case
    by (simp add: Let_def reduceStore_getElems split: sum.splits)
qed

lemma forEachActiveStore_forEachActive:
  assumes "distinct rs"
    and "\<forall>v \<in> set rs. \<exists>r. v = Ref r \<and> r < length st"
    and "\<forall>v \<in> set rs. getProp st v ''previousCreated'' = Undefined \<or>
           isStr (getProp st v ''previousCreated'')"
    and "isStr (getProp st (getProp st issue ''fields'') ''created'')"
    and "getElems st sortedItems = rs"
    and "fields_created issue' = strOf (getProp st (getProp st issue ''fields'') ''created'')"
  shows "forEachActive L issue' ss (map (loadComputedItem st) rs, c, passed) =
           (case snd (forEachActiveStore L issue sortedItems ss (st, c, passed)) of
              Inl e \<Rightarrow> Inl e
            | Inr q \<Rightarrow>
                Inr (map (loadComputedItem
                            (fst (forEachActiveStore L issue sortedItems ss (st, c, passed))))
                       rs, q))"
  using assms
proof (induction ss arbitrary: st c passed)
  case Nil
  show ?case by simp
next
  case (Cons stage ss)
  define P where "P = (\<lambda>item. getProp st item ''fromString'' = Str stage)"
  define res where "res = reduceStore L issue (filter P rs) st c \<lparr>didHappen = False, passedDays = 0\<rparr>"
  have p5: "\<forall>v \<in> set rs. P v = (getProp st v ''fromString'' = Str stage)" by (simp add: P_def)
  note red = reduceStore_reduceStage[OF Cons.prems(1-4) p5 Cons.prems(6),
      of L c "\<lparr>didHappen = False, passedDays = 0\<rparr>", folded res_def]
  from red have pure: "reduceStage L issue' stage (map (loadComputedItem st) rs) c
      \<lparr>didHappen = False, passedDays = 0\<rparr> = (map (loadComputedItem (fst res)) rs, snd res)"
    by blast
  show ?case
  proof (cases "tableSet passed stage (snd (snd res))")
    case (Inl e)
    then have step: "forEachActiveStore L issue sortedItems (stage # ss) (st, c, passed) =
        (fst res, Inl e)"
      by (simp add: Let_def res_def P_def Cons.prems(5))
    from Inl have pstep:
      "forEachActive L issue' (stage # ss) (map (loadComputedItem st) rs, c, passed) = Inl e"
      by (simp add: pure Let_def)
    show ?thesis unfolding step pstep by simp
  next
    case (Inr passed')
    then have step: "forEachActiveStore L issue sortedItems (stage # ss) (st, c, passed) =
        forEachActiveStore L issue sortedItems ss (fst res, fst (snd res), passed')"
      by (simp add: Let_def res_def P_def Cons.prems(5))
    have q2: "\<forall>v \<in> set rs. \<exists>r. v = Ref r \<and> r < length (fst res)"
      using red Cons.prems(2) by simp
    from red have q3: "\<forall>v \<in> set rs. getProp (fst res) v ''previousCreated'' = Undefined \<or>
             isStr (getProp (fst res) v ''previousCreated'')" by blast
    from red have keep: "\<And>w j. j \<noteq> ''previousCreated'' \<Longrightarrow>
        getProp (fst res) w j = getProp st w j"
      by blast
    have q4: "isStr (getProp (fst res) (getProp (fst res) issue ''fields'') ''created'')"
      using Cons.prems(4) by (simp add: keep)
    have q5: "getElems (fst res) sortedItems = rs"
      using Cons.prems(5) by (simp add: res_def reduceStore_getElems)
    have q6: "fields_created issue' =
        strOf (getProp (fst res) (getProp (fst res) issue ''fields'') ''created'')"
      using Cons.prems(6) by (simp add: keep)
    note ih = Cons.IH[OF Cons.prems(1) q2 q3 q4 q5 q6, of "fst (snd res)" passed']
    from Inr have pstep:
      "forEachActive L issue' (stage # ss) (map (loadComputedItem st) rs, c, passed) =
        forEachActive L issue' ss
          (map (loadComputedItem (fst res)) rs, fst (snd res), passed')"
      by (simp add: pure Let_def)
    show ?thesis unfolding step pstep by (rule ih)
  qed
qed

lemma getProp_append: "inStore st v \<Longrightarrow> getProp (st @ xs) v k = getProp st v k"
  by (cases v) (simp_all add: getProp_def inStore_def nth_append)

lemma getElems_append: "inStore st v \<Longrightarrow> getElems (st @ xs) v = getElems st v"
  by (cases v) (simp_all add: getElems_def inStore_def nth_append)

lemma allocItems_eq:
  "\<forall>p \<in> set ps. inStore st0 (snd p) \<Longrightarrow>
   allocItems (st0 @ xs) ps =
     (st0 @ xs @ map (newItem st0) ps,
      map Ref [length st0 + length xs ..< length st0 + length xs + length ps])"
proof (induction ps arbitrary: xs)
  case Nil
  show ?case by simp
next
  case (Cons p ps)
  from Cons.prems have p: "inStore st0 (snd p)" and rest: "\<forall>q \<in> set ps. inStore st0 (snd q)"
    by simp_all
  have obj: "\<lparr>obj_props = [(''fromString'', getProp (st0 @ xs) (snd p) ''fromString''),
                   (''toString'', getProp (st0 @ xs) (snd p) ''toString''),
                   (''created'', fst p)],
      obj_elems = []\<rparr> = newItem st0 p"
    by (simp add: newItem_def getProp_append[OF p])
  from Cons.IH[OF rest, of "xs @ [newItem st0 p]"]
  have ih: "allocItems (st0 @ xs @ [newItem st0 p]) ps =
     (st0 @ xs @ newItem st0 p # map (newItem st0) ps,
      map Ref [Suc (length st0 + length xs) ..< Suc (length st0 + length xs + length ps)])"
    by simp
  show ?case
    by (simp add: Let_def alloc_def obj ih upt_conv_Cons del: upt_Suc)
qed

lemma insort_key_map:
  "map f (insort_key (\<lambda>x. k (f x)) x xs) = insort_key k (f x) (map f xs)"
  by (induction xs) auto

lemma sort_key_map: "map f (sort_key (\<lambda>x. k (f x)) xs) = sort_key k (map f xs)"
  by (induction xs) (simp_all add: insort_key_map)

lemma strOf_eq_status: "strOf x = ''status'' \<longleftrightarrow> x = Str ''status''"
  by (cases x) auto

lemma filter_status_loadItem:
  "filter (\<lambda>i. item_field i = ''status'') (map (loadItem st) its) =
   map (loadItem st) (filter (\<lambda>it. getProp st it ''field'' = Str ''status'') its)"
  by (induction its) (simp_all add: loadItem_def strOf_eq_status)

lemma statusEntries_loadHistories:
  "filter (\<lambda>entry. length (snd entry) > 0)
     (map (\<lambda>history.
             (history_created history,
              filter (\<lambda>historyItem. item_field historyItem = ''status'')
                (history_items history)))
        (map (loadHistory st) hs)) =
   map (\<lambda>e. (strOf (fst e), map (loadItem st) (snd e)))
     (filter (\<lambda>entry. length (snd entry) > 0)
        (map (\<lambda>history.
                (getProp st history ''created'',
                 filter (\<lambda>historyItem. getProp st historyItem ''field'' = Str ''status'')
                   (getElems st (getProp st history ''items''))))
           hs))"
  by (induction hs) (simp_all add: loadHistory_def filter_status_loadItem)

lemma statusEntries_loadIssue:
  "statusEntries (loadIssue st issue) =
   map (\<lambda>e. (strOf (fst e), map (loadItem st) (snd e))) (statusEntriesStore st issue)"
  unfolding statusEntries_def statusEntriesStore_def
  by (simp only: loadIssue_def JiraApiIssue.simps statusEntries_loadHistories)

lemma computedItems_pairs:
  "concat (map computedItems (map (\<lambda>e. (strOf (fst e), map (loadItem st) (snd e))) es)) =
   map (newComputedItem st) (concat (map (\<lambda>entry. map (\<lambda>item. (fst entry, item)) (snd entry)) es))"
  by (induction es) (simp_all add: computedItems_def newComputedItem_def loadItem_def comp_def)

lemma loadComputedItem_new:
  "j < length ps \<Longrightarrow>
   loadComputedItem (st @ map (newItem st') ps @ ys) (Ref (length st + j)) =
     newComputedItem st' (ps ! j)"
  by (simp add: loadComputedItem_def getProp_def nth_append newItem_def newComputedItem_def)

lemma getProp_new_created:
  "j < length ps \<Longrightarrow>
   getProp (st @ map (newItem st') ps @ ys) (Ref (length st + j)) ''created'' = fst (ps ! j)"
  by (simp add: getProp_def nth_append newItem_def)

lemma getProp_new_previousCreated:
  "j < length ps \<Longrightarrow>
   getProp (st @ map (newItem st') ps @ ys) (Ref (length st + j)) ''previousCreated'' = Undefined"
  by (simp add: getProp_def nth_append newItem_def)

lemma annotateStore_getElems: "getElems (annotateStore st prev items) w = getElems st w"
  by (induction items arbitrary: st prev) (simp_all add: Let_def getElems_setProp)

lemma annotateStore_length: "length (annotateStore st prev items) = length st"
  by (induction items arbitrary: st prev) (simp_all add: Let_def length_setProp)

lemma wellTyped_pairs:
  assumes "wellTyped st issue"
    and "p \<in> set (concat (map (\<lambda>entry. map (\<lambda>item. (fst entry, item)) (snd entry))
                            (statusEntriesStore st issue)))"
  shows "inStore st (snd p) \<and> isStr (fst p)"
proof -
  from assms(2) obtain e where e: "e \<in> set (statusEntriesStore st issue)"
    and p: "fst p = fst e" "snd p \<in> set (snd e)"
    by auto
  from e obtain h where
    h: "h \<in> set (getElems st (getProp st (getProp st issue ''changelog'') ''histories''))"
    and eh: "fst e = getProp st h ''created''"
      "set (snd e) \<subseteq> set (getElems st (getProp st h ''items''))"
    unfolding statusEntriesStore_def by auto
  from assms(1) h have "isStr (getProp st h ''created'')"
    "list_all (inStore st) (getElems st (getProp st h ''items''))"
    by (simp_all add: wellTyped_def list_all_iff)
  with p eh show ?thesis by (auto simp: list_all_iff)
qed

lemma processHistoriesStore_processHistories:
  assumes wt: "wellTyped st issue"
  shows "map (loadComputedItem (fst (processHistoriesStore st issue)))
           (getElems (fst (processHistoriesStore st issue)) (snd (processHistoriesStore st issue)))
           = processHistories (loadIssue st issue) \<and>
         distinct (getElems (fst (processHistoriesStore st issue))
                     (snd (processHistoriesStore st issue))) \<and>
         (\<forall>v \<in> set (getElems (fst (processHistoriesStore st issue))
                      (snd (processHistoriesStore st issue))).
            (\<exists>r. v = Ref r \<and> r < length (fst (processHistoriesStore st issue))) \<and>
            (getProp (fst (processHistoriesStore st issue)) v ''previousCreated'' = Undefined \<or>
             isStr (getProp (fst (processHistoriesStore st issue)) v ''previousCreated''))) \<and>
         (\<forall>w j. inStore st w \<and> j \<noteq> ''previousCreated'' \<longrightarrow>
            getProp (fst (processHistoriesStore st issue)) w j = getProp st w j)"
proof -
  define n where "n = length st"
  define pairs where "pairs = concat (map (\<lambda>entry. map (\<lambda>item. (fst entry, item)) (snd entry))
                            (statusEntriesStore st issue))"
  define m where "m = length pairs"
  define refs where "refs = map Ref [n ..< n + m]"
  define arr where "arr = \<lparr>obj_props = [], obj_elems = refs\<rparr>"
  define st1 where "st1 = st @ map (newItem st) pairs @ [arr]"
  define sorted where "sorted = sort_key (\<lambda>v. strOf (getProp st1 v ''created'')) refs"
  define st2 where "st2 = st @ map (newItem st) pairs @ [\<lparr>obj_props = [], obj_elems = sorted\<rparr>]"
  define st3 where "st3 = annotateStore st2 Undefined sorted"
  have typed: "\<And>p. p \<in> set pairs \<Longrightarrow> inStore st (snd p) \<and> isStr (fst p)"
    unfolding pairs_def by (rule wellTyped_pairs[OF wt])
  then have "\<forall>p \<in> set pairs. inStore st (snd p)" by blast
  from allocItems_eq[OF this, of "[]"]
  have al: "allocItems st pairs = (st @ map (newItem st) pairs, refs)"
    by (simp add: refs_def n_def m_def)
  have e1: "alloc (fst (allocItems st pairs))
               \<lparr>obj_props = [], obj_elems = snd (allocItems st pairs)\<rparr> = (st1, n + m)"
    by (simp add: al alloc_def st1_def arr_def n_def m_def)
  have e2: "st1 ! (n + m) = arr"
    by (simp add: st1_def nth_append n_def m_def)
  have e3: "obj_elems arr = refs" by (simp add: arr_def)
  have upd: "st1[n + m := arr\<lparr>obj_elems := sorted\<rparr>] = st2"
    by (simp add: st1_def st2_def list_update_append n_def m_def arr_def)
  have el2: "getElems st2 (Ref (n + m)) = sorted"
    by (simp add: getElems_def st2_def nth_append n_def m_def)
  have res: "processHistoriesStore st issue = (st3, Ref (n + m))"
    unfolding processHistoriesStore_def Let_def pairs_def[symmetric] e1 fst_conv snd_conv e2
      e3 sorted_def[symmetric] upd el2 st3_def[symmetric]
    by (rule refl)
  have len: "length pairs = m" by (simp add: m_def)
  have new1: "\<And>j. j < m \<Longrightarrow>
      loadComputedItem st1 (Ref (n + j)) = newComputedItem st (pairs ! j)"
    unfolding st1_def n_def m_def by (rule loadComputedItem_new)
  have new2: "\<And>j. j < m \<Longrightarrow>
      loadComputedItem st2 (Ref (n + j)) = newComputedItem st (pairs ! j)"
    unfolding st2_def n_def m_def by (rule loadComputedItem_new)
  have refs_iff: "\<And>v. v \<in> set refs \<longleftrightarrow> (\<exists>j < m. v = Ref (n + j))"
  proof
    fix v assume "v \<in> set refs"
    then obtain r where "v = Ref r" "n \<le> r" "r < n + m" by (auto simp: refs_def)
    then have "v = Ref (n + (r - n))" "r - n < m" by simp_all
    then show "\<exists>j < m. v = Ref (n + j)" by blast
  next
    fix v assume "\<exists>j < m. v = Ref (n + j)"
    then show "v \<in> set refs" by (auto simp: refs_def)
  qed
  have set_sorted: "set sorted = set refs" by (simp add: sorted_def)
  have load1: "map (loadComputedItem st1) refs = map (newComputedItem st) pairs"
  proof (rule nth_equalityI)
    show "length (map (loadComputedItem st1) refs) = length (map (newComputedItem st) pairs)"
      by (simp add: refs_def m_def)
  next
    fix i assume "i < length (map (loadComputedItem st1) refs)"
    then have i: "i < m" by (simp add: refs_def)
    then show "map (loadComputedItem st1) refs ! i = map (newComputedItem st) pairs ! i"
      by (simp add: refs_def new1 len)
  qed
  have "sorted = sort_key (\<lambda>v. created (loadComputedItem st1 v)) refs"
    by (simp add: sorted_def loadComputedItem_def)
  then have "map (loadComputedItem st1) sorted =
      sort_key created (map (loadComputedItem st1) refs)"
    by (simp only: sort_key_map)
  moreover have "map (loadComputedItem st2) sorted = map (loadComputedItem st1) sorted"
  proof (rule map_cong[OF refl])
    fix v assume "v \<in> set sorted"
    then obtain j where "j < m" "v = Ref (n + j)" using set_sorted refs_iff by auto
    then show "loadComputedItem st2 v = loadComputedItem st1 v" by (simp add: new1 new2)
  qed
  ultimately have load2: "map (loadComputedItem st2) sorted =
      sort_key created (map (newComputedItem st) pairs)"
    by (simp add: load1)
  have dist: "distinct sorted"
    by (simp add: sorted_def refs_def distinct_map inj_on_def)
  have l2: "length st2 = Suc (n + m)" by (simp add: st2_def n_def m_def)
  have range: "\<forall>v \<in> set sorted. \<exists>r. v = Ref r \<and> r < length st2"
    using set_sorted refs_iff l2 by auto
  have created2: "\<forall>v \<in> set sorted. isStr (getProp st2 v ''created'')"
  proof
    fix v assume "v \<in> set sorted"
    then obtain j where j: "j < m" "v = Ref (n + j)" using set_sorted refs_iff by auto
    then have "getProp st2 v ''created'' = fst (pairs ! j)"
      unfolding st2_def n_def m_def by (simp add: getProp_new_created)
    moreover from j have "pairs ! j \<in> set pairs" by (simp add: m_def)
    ultimately show "isStr (getProp st2 v ''created'')" using typed by simp
  qed
  have pc2: "\<And>v. v \<in> set sorted \<Longrightarrow> getProp st2 v ''previousCreated'' = Undefined"
  proof -
    fix v assume "v \<in> set sorted"
    then obtain j where j: "j < m" "v = Ref (n + j)" using set_sorted refs_iff by auto
    then show "getProp st2 v ''previousCreated'' = Undefined"
      unfolding st2_def n_def m_def by (simp add: getProp_new_previousCreated)
  qed
  have "Undefined = Undefined \<or> isStr Undefined" by simp
  note ann = annotateStore_annotate[OF dist range created2 this, folded st3_def]
  from ann have items: "map (loadComputedItem st3) sorted =
      annotate None (map (loadComputedItem st2) sorted)" by simp
  have pure: "processHistories (loadIssue st issue) =
      annotate None (sort_key created (map (newComputedItem st) pairs))"
    by (simp only: processHistories_def statusEntries_loadIssue computedItems_pairs pairs_def)
  have el3: "getElems st3 (Ref (n + m)) = sorted"
    by (simp add: st3_def annotateStore_getElems el2)
  have l3: "length st3 = length st2" by (simp add: st3_def annotateStore_length)
  have c1: "map (loadComputedItem st3) (getElems st3 (Ref (n + m))) =
      processHistories (loadIssue st issue)"
    by (simp add: el3 items load2 pure)
  have c3: "\<forall>v \<in> set sorted. (\<exists>r. v = Ref r \<and> r < length st3) \<and>
      (getProp st3 v ''previousCreated'' = Undefined \<or>
       isStr (getProp st3 v ''previousCreated''))"
  proof
    fix v assume v: "v \<in> set sorted"
    with ann have "getProp st3 v ''previousCreated'' = Undefined \<or>
        isStr (getProp st3 v ''previousCreated'') \<or>
        getProp st3 v ''previousCreated'' = getProp st2 v ''previousCreated''" by blast
    with pc2[OF v] have "getProp st3 v ''previousCreated'' = Undefined \<or>
        isStr (getProp st3 v ''previousCreated'')" by auto
    with range v l3 show "(\<exists>r. v = Ref r \<and> r < length st3) \<and>
      (getProp st3 v ''previousCreated'' = Undefined \<or>
       isStr (getProp st3 v ''previousCreated''))" by simp
  qed
  have c4: "\<forall>w j. inStore st w \<and> j \<noteq> ''previousCreated'' \<longrightarrow> getProp st3 w j = getProp st w j"
  proof (intro allI impI)
    fix w j assume h: "inStore st w \<and> j \<noteq> ''previousCreated''"
    with ann have "getProp st3 w j = getProp st2 w j" by blast
    also from h have "\<dots> = getProp st w j" unfolding st2_def by (simp add: getProp_append)
    finally show "getProp st3 w j = getProp st w j" .
  qed
  from c1 dist c3 c4 show ?thesis unfolding res fst_conv snd_conv el3 by blast
qed

section \<open>Scenario A and Scenario B\<close>

text \<open>
  C2 (as the spec states it, refuted): for Scenario A the spec expects the vector
  2024-01-02, 2024-01-02, 2024-01-08. The code does not return it: no transition enters
  Backlog, so the first element is empty.
\<close>

theorem scenarioA_not_as_expected:
  "getStagingDates monFri scenarioA workflowStages [''In Progress'']
     \<noteq> Inr [''2024-01-02'', ''2024-01-02'', ''2024-01-08'']"
  by code_simp

text \<open>
  C2 (amended): for Scenario A \<^verbatim>\<open>getStagingDates\<close> returns the empty string for
  Backlog, 2024-01-02 for In Progress (the Done date less the four business days from
  2024-01-02 to 2024-01-08) and 2024-01-08 for Done.
\<close>

theorem scenarioA_result:
  "getStagingDates monFri scenarioA workflowStages [''In Progress'']
     = Inr ['''', ''2024-01-02'', ''2024-01-08'']"
  by code_simp

text \<open>
  C3 (as the spec states it, refuted): for Scenario B the spec expects the vector
  2024-01-03, 2024-01-03 and the empty string. The code does not return it.
\<close>

theorem scenarioB_not_as_expected:
  "getStagingDates monFri scenarioB workflowStages [''In Progress'']
     \<noteq> Inr [''2024-01-03'', ''2024-01-03'', '''']"
  by code_simp

text \<open>
  C3 (amended): for Scenario B \<^verbatim>\<open>getStagingDates\<close> returns three empty strings. No
  transition enters Backlog, no transition leaves In Progress (its record keeps
  \<^verbatim>\<open>didHappen = false\<close> and no anchor is set), and Done was not reached.
\<close>

theorem scenarioB_result:
  "getStagingDates monFri scenarioB workflowStages [''In Progress''] = Inr ['''', '''', '''']"
  by code_simp

section \<open>Length and position of the output\<close>

text \<open>
  C6: whenever \<^verbatim>\<open>getStagingDates\<close> returns an array, the array has one element per
  workflow stage, and the element at position \<open>i\<close> is the date of stage \<open>i\<close>. In the
  Done branch it is the formatted entry of stage \<open>i\<close> in the table of the backward loop
  (active stage) or in the table of inactive dates (inactive stage). In the not-Done
  branch it is what the callback returns for stage \<open>i\<close>, run with the cursor left by the
  stages before it.
\<close>

theorem getStagingDates_length_and_positions:
  assumes "getStagingDates L issue stages activeStatuses = Inr out"
  shows "length out = length stages \<and>
    (\<forall>i < length stages.
       case inactiveDatesTable L issue stages activeStatuses ''Done'' of
         Some isDoneDate \<Rightarrow>
           (\<exists>st. doneLoop L (passedDaysTable L issue stages activeStatuses)
                    (rev activeStatuses) (Some isDoneDate, Map.empty) = Inr st \<and>
                 out ! i =
                   formatOrEmpty L
                     (if stages ! i \<in> set activeStatuses then snd st (stages ! i)
                      else inactiveDatesTable L issue stages activeStatuses (stages ! i)))
       | None \<Rightarrow>
           (\<exists>pre c c'.
              notDoneLoop L activeStatuses (passedDaysTable L issue stages activeStatuses)
                (inactiveDatesTable L issue stages activeStatuses) (take i stages)
                (anchorDate L issue stages activeStatuses) = Inr (pre, c) \<and>
              notDoneStage L activeStatuses (passedDaysTable L issue stages activeStatuses)
                (inactiveDatesTable L issue stages activeStatuses) (stages ! i) c =
                Inr (out ! i, c')))"
proof (cases "inactiveDatesTable L issue stages activeStatuses ''Done''")
  case None
  with getStagingDates_returned[OF assms] have "mapNotDoneIssue L stages activeStatuses
      (passedDaysTable L issue stages activeStatuses)
      (inactiveDatesTable L issue stages activeStatuses)
      (anchorDate L issue stages activeStatuses) = Inr out"
    by simp
  then obtain c' where loop: "notDoneLoop L activeStatuses
      (passedDaysTable L issue stages activeStatuses)
      (inactiveDatesTable L issue stages activeStatuses) stages
      (anchorDate L issue stages activeStatuses) = Inr (out, c')"
    using mapNotDoneIssue_Inr by blast
  from notDoneLoop_length[OF loop] notDoneLoop_nth[OF loop] None
  show ?thesis by simp
next
  case (Some d)
  with getStagingDates_returned[OF assms] have "mapDoneIssue L stages activeStatuses
      (passedDaysTable L issue stages activeStatuses)
      (inactiveDatesTable L issue stages activeStatuses) = Inr out"
    by simp
  from mapDoneIssue_Inr[OF this] obtain st where
    st: "doneLoop L (passedDaysTable L issue stages activeStatuses) (rev activeStatuses)
           (inactiveDatesTable L issue stages activeStatuses ''Done'', Map.empty) = Inr st"
    and out: "out = map (\<lambda>stage. formatOrEmpty L
                        (if stage \<in> set activeStatuses then snd st stage
                         else inactiveDatesTable L issue stages activeStatuses stage))
                   stages"
    by blast
  have "length out = length stages" by (simp add: out)
  moreover have "\<forall>i < length stages. out ! i =
      formatOrEmpty L
        (if stages ! i \<in> set activeStatuses then snd st (stages ! i)
         else inactiveDatesTable L issue stages activeStatuses (stages ! i))"
    by (simp add: out)
  ultimately show ?thesis using st Some by auto
qed

text \<open>The theorem applied to Scenario A, whose result has three elements.\<close>

theorem getStagingDates_length_and_positions_witness:
  "getStagingDates monFri scenarioA workflowStages [''In Progress'']
     = Inr ['''', ''2024-01-02'', ''2024-01-08''] \<and>
   length ['''', ''2024-01-02'', ''2024-01-08''] = length workflowStages"
proof -
  have h: "getStagingDates monFri scenarioA workflowStages [''In Progress'']
     = Inr ['''', ''2024-01-02'', ''2024-01-08'']"
    by code_simp
  from getStagingDates_length_and_positions[OF h] h show ?thesis by simp
qed

section \<open>Issues without status changes\<close>

text \<open>
  C8: an issue with an empty changelog should get the empty string for every stage. In
  a workflow with the inactive stage \<^verbatim>\<open>constructor\<close> it does not: line 93 reads
  \<^verbatim>\<open>inactiveStatusesDates['constructor']\<close>, which no pass has set, and gets the function
  that every \<^verbatim>\<open>Map\<close> object inherits under that name. The function is truthy and has
  no method \<^verbatim>\<open>format\<close>, so line 94 throws.
\<close>

theorem inherited_stage_name_throws:
  "changelog_histories newIssue = [] \<and>
   getStagingDates monFri newIssue constructorStages [''In Progress'']
     = Inl (TypeError ''format'')"
  by code_simp

text \<open>
  When no field-change record of the changelog has the field \<^verbatim>\<open>status\<close> (an empty
  changelog included) and no workflow stage is named like a member the tables inherit,
  \<^verbatim>\<open>getStagingDates\<close> raises nothing and returns the empty string for every workflow
  stage, whatever the active statuses are.
\<close>

theorem no_status_changes_all_empty:
  assumes none: "\<forall>h \<in> set (changelog_histories issue). \<forall>it \<in> set (history_items h).
             item_field it \<noteq> ''status''"
    and plain: "set stages \<inter> set inheritedNames = {}"
  shows "getStagingDates L issue stages activeStatuses = Inr (replicate (length stages) [])"
proof -
  have items: "processHistories issue = []"
    by (rule processHistories_no_status) (rule none)
  from plain reserved_names have size: "''size'' \<notin> set stages" by blast
  let ?ss = "filter (\<lambda>stage. stage \<in> set activeStatuses) stages"
  let ?P = "\<lambda>s. if s \<in> set ?ss then Some \<lparr>didHappen = False, passedDays = 0\<rparr> else None"
  from size have "''size'' \<notin> set ?ss" by simp
  from forEachActive_no_items[OF this, of L issue None Map.empty]
  have pa: "processActiveStatuses L issue stages activeStatuses (processHistories issue)
      Map.empty = Inr ([], None, ?P)"
    by (simp add: processActiveStatuses_def items)
  have pi: "processInactiveStates L stages activeStatuses [] Map.empty = Inr Map.empty"
    by (simp add: processInactiveStates_def forEachInactive_no_items)
  have "notDoneLoop L activeStatuses ?P Map.empty stages None =
        Inr (replicate (length stages) [], None)"
  proof (rule notDoneLoop_all_empty)
    fix s assume "s \<in> set stages"
    with plain show "s \<notin> set inheritedNames" by blast
  qed simp_all
  then show ?thesis
    by (simp add: getStagingDates_cases pa pi mapNotDoneIssue_def)
qed

text \<open>The theorem applied to an issue whose changelog only renames it.\<close>

theorem no_status_changes_all_empty_witness:
  "getStagingDates monFri renamedIssue workflowStages [''In Progress''] = Inr ['''', '''', '''']"
proof -
  have h: "\<forall>h \<in> set (changelog_histories renamedIssue). \<forall>it \<in> set (history_items h).
             item_field it \<noteq> ''status''"
    by (simp add: renamedIssue_def)
  have plain: "set workflowStages \<inter> set inheritedNames = {}" by code_simp
  from no_status_changes_all_empty[OF h plain, of monFri "[''In Progress'']"]
  show ?thesis by (simp add: workflowStages_def)
qed

section \<open>Dates of the inactive stages\<close>

text \<open>
  C5: an inactive stage that a transition enters should get the date of its first
  entering transition in both branches. The inactive stage \<^verbatim>\<open>done\<close> is first entered on
  2024-01-09, yet the call returns 2024-01-04 for it: line 129 looks up the key
  \<^verbatim>\<open>'Done'\<close>, finds nothing and takes the not-Done branch, where line 91 compares the
  lower-cased name and lines 98 to 100 return the cursor left by the active stage In
  Progress instead of the recorded date. In the Done branch the same stage would get its
  recorded date.
\<close>

theorem lower_case_done_gets_cursor:
  "getStagingDates monFri lowerDoneIssue lowerDoneStages [''In Progress'']
     = Inr ['''', ''2024-01-02'', ''2024-01-04'', ''2024-01-04''] \<and>
   map_option created
     (find (\<lambda>item. toString item = Some ''done'') (processHistories lowerDoneIssue))
     = Some ''2024-01-09''"
  by code_simp

text \<open>
  Let stage \<open>i\<close> be inactive and entered by at least one status transition. In every array
  the Done branch returns, and in every array the not-Done branch returns when the
  lower-case form of the stage's name is not \<^verbatim>\<open>done\<close>, element \<open>i\<close> is the formatted
  calendar date of a transition into the stage whose timestamp is least among all
  transitions into it, in the order \<^verbatim>\<open>processHistories\<close> sorts by (the timestamps
  compared as strings).
\<close>

theorem inactive_stage_date:
  assumes out: "getStagingDates L issue stages activeStatuses = Inr out"
    and i: "i < length stages"
    and inactive: "stages ! i \<notin> set activeStatuses"
    and entered: "\<exists>h \<in> set (changelog_histories issue). \<exists>it \<in> set (history_items h).
             item_field it = ''status'' \<and> item_toString it = Some (stages ! i)"
    and name: "toLowerCase (stages ! i) \<noteq> ''done'' \<or>
               inactiveDatesTable L issue stages activeStatuses ''Done'' \<noteq> None"
  shows "\<exists>h \<in> set (changelog_histories issue). \<exists>it \<in> set (history_items h).
           item_field it = ''status'' \<and> item_toString it = Some (stages ! i) \<and>
           (\<forall>h' \<in> set (changelog_histories issue). \<forall>it' \<in> set (history_items h').
              item_field it' = ''status'' \<and> item_toString it' = Some (stages ! i) \<longrightarrow>
              history_created h \<le> history_created h') \<and>
           out ! i = format L (moment L (splitT (history_created h)))"
proof -
  define s where "s = stages ! i"
  from first_entering_transition[OF entered] obtain x where
    x: "find (\<lambda>item. toString item = Some s) (processHistories issue) = Some x"
    and ex: "\<exists>h \<in> set (changelog_histories issue). \<exists>it \<in> set (history_items h).
              item_field it = ''status'' \<and> item_toString it = Some s \<and>
              history_created h = created x"
    and least: "\<forall>h' \<in> set (changelog_histories issue). \<forall>it' \<in> set (history_items h').
              item_field it' = ''status'' \<and> item_toString it' = Some s \<longrightarrow>
              created x \<le> history_created h'"
    unfolding s_def by blast
  from getStagingDates_passes[OF out] obtain r D where
    pa: "processActiveStatuses L issue stages activeStatuses (processHistories issue)
           Map.empty = Inr r"
    and pi: "processInactiveStates L stages activeStatuses (fst r) Map.empty = Inr D"
    by blast
  note tables = tables_of_passes[OF pa pi]
  from i have mem: "s \<in> set stages" by (simp add: s_def)
  with inactive x have date: "inactiveDatesTable L issue stages activeStatuses s =
      Some (moment L (splitT (created x)))"
    by (simp add: tables inactiveDatesTable_lookup[OF pa pi] s_def)
  then have look: "tableGet (momentMember L)
      (inactiveDatesTable L issue stages activeStatuses) s =
      Entry (moment L (splitT (created x)))"
    by (rule tableGet_own)
  have result: "out ! i = format L (moment L (splitT (created x)))"
  proof (cases "inactiveDatesTable L issue stages activeStatuses ''Done''")
    case None
    with name have notDone: "toLowerCase s \<noteq> ''done''" by (simp add: s_def)
    from getStagingDates_returned[OF out] None have "mapNotDoneIssue L stages activeStatuses
        (passedDaysTable L issue stages activeStatuses)
        (inactiveDatesTable L issue stages activeStatuses)
        (anchorDate L issue stages activeStatuses) = Inr out"
      by simp
    then obtain c' where "notDoneLoop L activeStatuses
        (passedDaysTable L issue stages activeStatuses)
        (inactiveDatesTable L issue stages activeStatuses) stages
        (anchorDate L issue stages activeStatuses) = Inr (out, c')"
      using mapNotDoneIssue_Inr by blast
    from notDoneLoop_nth[OF this i] obtain ci cj where
      "notDoneStage L activeStatuses (passedDaysTable L issue stages activeStatuses)
         (inactiveDatesTable L issue stages activeStatuses) s ci = Inr (out ! i, cj)"
      unfolding s_def by blast
    with inactive notDone look show ?thesis
      by (simp add: notDoneStage_def Let_def formatLooked_def s_def)
  next
    case (Some d)
    with getStagingDates_returned[OF out] have "mapDoneIssue L stages activeStatuses
        (passedDaysTable L issue stages activeStatuses)
        (inactiveDatesTable L issue stages activeStatuses) = Inr out"
      by simp
    from mapDoneIssue_Inr[OF this] obtain st where
      "doneLoop L (passedDaysTable L issue stages activeStatuses) (rev activeStatuses)
           (inactiveDatesTable L issue stages activeStatuses ''Done'', Map.empty) = Inr st"
      and "out = map (\<lambda>stage. formatOrEmpty L
                        (if stage \<in> set activeStatuses then snd st stage
                         else inactiveDatesTable L issue stages activeStatuses stage))
                   stages"
      by blast
    with i inactive date show ?thesis
      by (simp add: formatOrEmpty_def s_def)
  qed
  from ex obtain h it where "h \<in> set (changelog_histories issue)" "it \<in> set (history_items h)"
    "item_field it = ''status''" "item_toString it = Some s" "history_created h = created x"
    by blast
  with least result show ?thesis unfolding s_def by metis
qed

text \<open>The theorem applied to the stage Done of Scenario A.\<close>

theorem inactive_stage_date_witness:
  "getStagingDates monFri scenarioA workflowStages [''In Progress'']
     = Inr ['''', ''2024-01-02'', ''2024-01-08''] \<and>
   (\<exists>h \<in> set (changelog_histories scenarioA). \<exists>it \<in> set (history_items h).
      item_field it = ''status'' \<and> item_toString it = Some ''Done'' \<and>
      ['''', ''2024-01-02'', ''2024-01-08''] ! 2 =
        format monFri (moment monFri (splitT (history_created h))))"
proof -
  have out: "getStagingDates monFri scenarioA workflowStages [''In Progress'']
     = Inr ['''', ''2024-01-02'', ''2024-01-08'']"
    by code_simp
  have i: "2 < length workflowStages" by (simp add: workflowStages_def)
  have s: "workflowStages ! 2 = ''Done''" by (simp add: workflowStages_def)
  have inactive: "workflowStages ! 2 \<notin> set [''In Progress'']" by (simp add: s)
  have entered: "\<exists>h \<in> set (changelog_histories scenarioA). \<exists>it \<in> set (history_items h).
             item_field it = ''status'' \<and> item_toString it = Some (workflowStages ! 2)"
    by (simp add: s scenarioA_def statusChange_def)
  have "inactiveDatesTable monFri scenarioA workflowStages [''In Progress''] ''Done'' \<noteq> None"
    by code_simp
  then have name: "toLowerCase (workflowStages ! 2) \<noteq> ''done'' \<or>
      inactiveDatesTable monFri scenarioA workflowStages [''In Progress''] ''Done'' \<noteq> None"
    by simp
  from inactive_stage_date[OF out i inactive entered name] out
  show ?thesis unfolding s by blast
qed

section \<open>The backward simulation\<close>

text \<open>
  C1 (as the spec states it, refuted): Review is the first stage the backward loop
  visits, so the cursor before its three business days are subtracted is the Done date,
  2024-01-09. The date emitted for Review is 2024-01-04, not 2024-01-09.
\<close>

theorem backward_date_is_not_cursor_before:
  "getStagingDates monFri reviewIssue reviewStages [''In Progress'', ''Review'']
     = Inr ['''', ''2024-01-02'', ''2024-01-04'', ''2024-01-09''] \<and>
   map_option (format monFri)
     (inactiveDatesTable monFri reviewIssue reviewStages [''In Progress'', ''Review''] ''Done'')
     = Some ''2024-01-09'' \<and>
   passedDaysTable monFri reviewIssue reviewStages [''In Progress'', ''Review''] ''Review''
     = Some \<lparr>didHappen = True, passedDays = 3\<rparr>"
  by code_simp

text \<open>
  C1 (amended): when the backward loop reaches an entry of the reversed
  \<^verbatim>\<open>activeStatuses\<close> whose record has \<^verbatim>\<open>didHappen = true\<close>, it first moves the cursor
  back by the record's \<^verbatim>\<open>passedDays\<close> and then stores the moved cursor as the date of
  that stage; the moved cursor is also the one the next entry starts from. If the stage
  does not occur again later in the reversed array, the output element at the stage's
  position is the formatted moved cursor.
\<close>

theorem backward_date_is_cursor_after_subtraction:
  assumes out: "mapDoneIssue L stages activeStatuses passed dates = Inr out"
    and split: "rev activeStatuses = pre @ status # post"
    and last: "status \<notin> set post"
    and rec: "passed status = Some r"
    and happened: "didHappen r"
    and i: "i < length stages"
    and s: "stages ! i = status"
  shows "\<exists>cursor table.
           doneLoop L passed pre (dates ''Done'', Map.empty) = Inr (Some cursor, table) \<and>
           doneLoop L passed (pre @ [status]) (dates ''Done'', Map.empty) =
             Inr (Some (businessSubtract L cursor (passedDays r)),
                  table(status \<mapsto> businessSubtract L cursor (passedDays r))) \<and>
           out ! i = format L (businessSubtract L cursor (passedDays r))"
proof -
  from mapDoneIssue_Inr[OF out] obtain st where
    st: "doneLoop L passed (rev activeStatuses) (dates ''Done'', Map.empty) = Inr st"
    and outs: "out = map (\<lambda>stage. formatOrEmpty L
                        (if stage \<in> set activeStatuses then snd st stage else dates stage))
                   stages"
    by blast
  from st split obtain st1 where
    pre: "doneLoop L passed pre (dates ''Done'', Map.empty) = Inr st1"
    and rest: "doneLoop L passed (status # post) st1 = Inr st"
    by (auto simp: doneLoop_append split: sum.splits)
  obtain c1 table where st1: "st1 = (c1, table)" by (cases st1)
  from rec have look: "tableGet recordMember passed status = Entry r" by (rule tableGet_own)
  from rest look happened obtain cursor table' where c1: "c1 = Some cursor"
    and wr: "tableSet table status (businessSubtract L cursor (passedDays r)) = Inr table'"
    and post: "doneLoop L passed post
        (Some (businessSubtract L cursor (passedDays r)), table') = Inr st"
    unfolding st1 by (auto simp: Let_def split: option.splits sum.splits)
  from tableSet_Inr[OF wr]
  have table': "table' = table(status \<mapsto> businessSubtract L cursor (passedDays r))" .
  obtain cN tableN where stN: "st = (cN, tableN)" by (cases st)
  from doneLoop_keeps_date[OF post[unfolded stN] last]
  have date: "snd st status = Some (businessSubtract L cursor (passedDays r))"
    by (simp add: stN table')
  from split have "status \<in> set (rev activeStatuses)" by simp
  then have active: "status \<in> set activeStatuses" by simp
  have one: "doneLoop L passed (pre @ [status]) (dates ''Done'', Map.empty) =
             Inr (Some (businessSubtract L cursor (passedDays r)),
                  table(status \<mapsto> businessSubtract L cursor (passedDays r)))"
    using pre look happened wr
    by (simp add: doneLoop_append st1 c1 Let_def table')
  from i s active date have "out ! i = format L (businessSubtract L cursor (passedDays r))"
    by (simp add: outs formatOrEmpty_def)
  with pre one show ?thesis unfolding st1 c1 by blast
qed

text \<open>The theorem applied to the stage Review of the two-active-stage issue.\<close>

theorem backward_date_is_cursor_after_subtraction_witness:
  "\<exists>cursor table.
     doneLoop monFri
       (passedDaysTable monFri reviewIssue reviewStages [''In Progress'', ''Review'']) []
       (inactiveDatesTable monFri reviewIssue reviewStages [''In Progress'', ''Review'']
          ''Done'', Map.empty) = Inr (Some cursor, table) \<and>
     ''2024-01-04'' = format monFri (businessSubtract monFri cursor 3)"
proof -
  let ?A = "[''In Progress'', ''Review'']"
  let ?P = "passedDaysTable monFri reviewIssue reviewStages ?A"
  let ?D = "inactiveDatesTable monFri reviewIssue reviewStages ?A"
  have out: "mapDoneIssue monFri reviewStages ?A ?P ?D
      = Inr ['''', ''2024-01-02'', ''2024-01-04'', ''2024-01-09'']"
    by code_simp
  have split: "rev ?A = [] @ ''Review'' # [''In Progress'']" by simp
  have last: "''Review'' \<notin> set [''In Progress'']" by simp
  have rec: "?P ''Review'' = Some \<lparr>didHappen = True, passedDays = 3\<rparr>" by code_simp
  have happened: "didHappen \<lparr>didHappen = True, passedDays = 3\<rparr>" by simp
  have i: "2 < length reviewStages" by (simp add: reviewStages_def)
  have s: "reviewStages ! 2 = ''Review''" by (simp add: reviewStages_def)
  from backward_date_is_cursor_after_subtraction[OF out split last rec happened i s]
  show ?thesis by auto
qed

section \<open>Input that breaks the caller's contract\<close>




section \<open>The issue is not mutated\<close>

text \<open>
  C9: whatever the store, the issue, the workflow and the active statuses are, every
  object that exists when \<^verbatim>\<open>getStagingDates\<close> is called is the same object, with the
  same properties and elements, when the call ends: the first \<open>length st\<close> objects of the
  final store are the initial store. The issue, its creation timestamp, its histories
  and their field-change records are among them; the writes of \<^verbatim>\<open>previousCreated\<close> and
  the sort in place only reach the objects \<^verbatim>\<open>processHistories\<close> creates.
\<close>

theorem issue_objects_unchanged:
  "take (length st) (snd (getStagingDatesStore L st issue stages activeStatuses)) = st"
proof -
  define h where "h = processHistoriesStore st issue"
  from processHistoriesStore_frame[of st issue]
  have a: "take (length st) (fst h) = st" "length st \<le> length (fst h)"
    "list_all (freshVal (length st)) (getElems (fst h) (snd h))"
    by (simp_all add: h_def)
  from forEachActiveStore_frame[OF a(3), of L issue
      "filter (\<lambda>stage. stage \<in> set activeStatuses) stages" None Map.empty]
  have "take (length st)
          (fst (processActiveStatusesStore L (fst h) issue stages activeStatuses (snd h)
                  Map.empty)) = take (length st) (fst h)"
    by (simp add: processActiveStatusesStore_def)
  with a(1) show ?thesis
    by (simp add: getStagingDatesStore_def Let_def h_def[symmetric])
qed

text \<open>The theorem applied to the ten objects of Scenario A.\<close>

theorem issue_objects_unchanged_witness:
  "length scenarioAStore = 10 \<and>
   take 10 (snd (getStagingDatesStore monFri scenarioAStore (Ref 9) workflowStages
                   [''In Progress''])) = scenarioAStore"
proof -
  have n: "length scenarioAStore = 10" by (simp add: scenarioAStore_def)
  from issue_objects_unchanged[of scenarioAStore monFri "Ref 9" workflowStages
      "[''In Progress'']"] n
  show ?thesis by simp
qed

text \<open>
  The call on the objects of Scenario A returns what the list model returns, and leaves
  the ten objects followed by the two new items and the new array. Only the second new
  item received \<^verbatim>\<open>previousCreated\<close>.
\<close>

theorem scenarioA_objects_unchanged:
  "getStagingDatesStore monFri scenarioAStore (Ref 9) workflowStages [''In Progress''] =
     (Inr ['''', ''2024-01-02'', ''2024-01-08''],
      scenarioAStore @
      [\<lparr>obj_props = [(''fromString'', Str ''Backlog''), (''toString'', Str ''In Progress''),
                     (''created'', Str ''2024-01-02'')], obj_elems = []\<rparr>,
       \<lparr>obj_props = [(''previousCreated'', Str ''2024-01-02''),
                     (''fromString'', Str ''In Progress''), (''toString'', Str ''Done''),
                     (''created'', Str ''2024-01-08'')], obj_elems = []\<rparr>,
       \<lparr>obj_props = [], obj_elems = [Ref 10, Ref 11]\<rparr>])"
  by code_simp

text \<open>
  The two models of \<^verbatim>\<open>getStagingDates\<close> agree. When the issue in the store is typed as
  the source declares it, the call on the store returns or throws exactly what the call
  on the lists does for the issue read from the store. The property of C9, proved on the
  store, is therefore a property of the same function that the other claims are about.
\<close>

theorem store_model_agrees:
  assumes wt: "wellTyped st issue"
  shows "fst (getStagingDatesStore L st issue stages activeStatuses) =
           getStagingDates L (loadIssue st issue) stages activeStatuses"
proof -
  define h where "h = processHistoriesStore st issue"
  define rs where "rs = getElems (fst h) (snd h)"
  define ss where "ss = filter (\<lambda>stage. stage \<in> set activeStatuses) stages"
  define r where "r = forEachActiveStore L issue (snd h) ss (fst h, None, Map.empty)"
  note ph = processHistoriesStore_processHistories[OF wt, folded h_def, folded rs_def]
  from ph have items: "map (loadComputedItem (fst h)) rs = processHistories (loadIssue st issue)"
    by blast
  from ph have dist: "distinct rs" by blast
  from ph have range: "\<forall>v \<in> set rs. \<exists>r. v = Ref r \<and> r < length (fst h)" by blast
  from ph have pc: "\<forall>v \<in> set rs. getProp (fst h) v ''previousCreated'' = Undefined \<or>
           isStr (getProp (fst h) v ''previousCreated'')" by blast
  from ph have frame: "\<And>w j. inStore st w \<Longrightarrow> j \<noteq> ''previousCreated'' \<Longrightarrow>
      getProp (fst h) w j = getProp st w j" by blast
  from wt have i1: "inStore st issue" and i2: "inStore st (getProp st issue ''fields'')"
    and i3: "isStr (getProp st (getProp st issue ''fields'') ''created'')"
    by (simp_all add: wellTyped_def)
  have f1: "getProp (fst h) issue ''fields'' = getProp st issue ''fields''"
    using i1 by (simp add: frame)
  have f2: "getProp (fst h) (getProp (fst h) issue ''fields'') ''created'' =
      getProp st (getProp st issue ''fields'') ''created''"
    unfolding f1 using i2 by (simp add: frame)
  have c4: "isStr (getProp (fst h) (getProp (fst h) issue ''fields'') ''created'')"
    unfolding f2 by (rule i3)
  have c6: "fields_created (loadIssue st issue) =
      strOf (getProp (fst h) (getProp (fst h) issue ''fields'') ''created'')"
    unfolding f2 by (simp add: loadIssue_def)
  have el: "getElems (fst h) (snd h) = rs" by (simp add: rs_def)
  note fe = forEachActiveStore_forEachActive[OF dist range pc c4 el c6,
      of L ss None Map.empty, folded r_def]
  have el': "getElems (fst r) (snd h) = rs"
    by (simp add: r_def forEachActiveStore_getElems rs_def)
  have pa: "processActiveStatuses L (loadIssue st issue) stages activeStatuses
      (processHistories (loadIssue st issue)) Map.empty =
      (case snd r of
         Inl e \<Rightarrow> Inl e
       | Inr q \<Rightarrow> Inr (map (loadComputedItem (fst r)) rs, q))"
    unfolding processActiveStatuses_def ss_def[symmetric] items[symmetric] by (rule fe)
  have ps: "processActiveStatusesStore L (fst h) issue stages activeStatuses (snd h) Map.empty = r"
    unfolding processActiveStatusesStore_def ss_def[symmetric] r_def by (rule refl)
  show ?thesis
  proof (cases "snd r")
    case (Inl e)
    then show ?thesis
      unfolding getStagingDatesStore_def getStagingDates_def Let_def h_def[symmetric] ps pa
      by simp
  next
    case (Inr q)
    then show ?thesis
      unfolding getStagingDatesStore_def getStagingDates_def Let_def h_def[symmetric] ps pa
        el'
      by (simp split: sum.splits)
  qed
qed

text \<open>The objects of Scenario A are typed as the source declares, and the two models agree
  on them.\<close>

theorem store_model_agrees_witness:
  "wellTyped scenarioAStore (Ref 9) \<and>
   fst (getStagingDatesStore monFri scenarioAStore (Ref 9) workflowStages
          [''In Progress'']) =
     getStagingDates monFri (loadIssue scenarioAStore (Ref 9)) workflowStages
       [''In Progress'']"
proof -
  have wt: "wellTyped scenarioAStore (Ref 9)" by code_simp
  from store_model_agrees[OF wt] wt show ?thesis by blast
qed

section \<open>The order of the backward walk\<close>

text \<open>
  C4: the backward loop walks the reversed \<^verbatim>\<open>activeStatuses\<close> array, not the active
  stages in reverse workflow order. With the two active stages listed as Review, In
  Progress the loop visits In Progress first: it gets the Done date less its own two
  days, 2024-01-05, and Review gets 2024-01-02, before the stage that precedes it in the
  workflow. Listed in workflow order, the same issue gives 2024-01-02 and 2024-01-04.
\<close>

theorem backward_order_follows_activeStatuses:
  "getStagingDates monFri reviewIssue reviewStages [''Review'', ''In Progress'']
     = Inr ['''', ''2024-01-05'', ''2024-01-02'', ''2024-01-09''] \<and>
   getStagingDates monFri reviewIssue reviewStages [''In Progress'', ''Review'']
     = Inr ['''', ''2024-01-02'', ''2024-01-04'', ''2024-01-09'']"
  by code_simp

section \<open>A call that throws although every active status is a workflow stage\<close>

text \<open>
  C10: the only active status is a workflow stage, yet the call throws. The stage
  \<^verbatim>\<open>done\<close> has a recorded date, the branch test looks up \<^verbatim>\<open>'Done'\<close> and takes the
  not-Done branch, and line 100 calls \<^verbatim>\<open>format\<close> on \<^verbatim>\<open>activeStatusDate\<close>, which no
  episode of an active stage has set.
\<close>

theorem lower_case_done_without_anchor_throws:
  "''In Progress'' \<in> set directStages \<and>
   getStagingDates monFri directIssue directStages [''In Progress'']
     = Inl (TypeError ''format'')"
  by code_simp

section \<open>Further properties\<close>

text \<open>
  Totality: when every active status is a workflow stage, no workflow stage is named like
  a member the tables inherit, and every workflow stage whose lower-case name is
  \<^verbatim>\<open>done\<close> is spelled \<^verbatim>\<open>Done\<close> or is active, \<^verbatim>\<open>getStagingDates\<close> returns an array.
  In the Done branch every record the backward loop looks up is defined and the cursor
  is set; in the not-Done branch the cursor is set whenever a record has
  \<^verbatim>\<open>didHappen = true\<close>.
\<close>

theorem getStagingDates_total:
  assumes members: "set activeStatuses \<subseteq> set stages"
    and plain: "set stages \<inter> set inheritedNames = {}"
    and dones: "\<forall>s \<in> set stages. toLowerCase s = ''done'' \<longrightarrow>
                  s = ''Done'' \<or> s \<in> set activeStatuses"
  shows "\<exists>out. getStagingDates L issue stages activeStatuses = Inr out"
  using assms by (rule returns_under_contract)

text \<open>The theorem applied to Scenario B.\<close>

theorem getStagingDates_total_witness:
  "set [''In Progress''] \<subseteq> set workflowStages \<and>
   (\<exists>out. getStagingDates monFri scenarioB workflowStages [''In Progress''] = Inr out)"
proof -
  have members: "set [''In Progress''] \<subseteq> set workflowStages"
    by (simp add: workflowStages_def)
  have plain: "set workflowStages \<inter> set inheritedNames = {}" by code_simp
  have dones: "\<forall>s \<in> set workflowStages. toLowerCase s = ''done'' \<longrightarrow>
                  s = ''Done'' \<or> s \<in> set [''In Progress'']"
    by code_simp
  from getStagingDates_total[OF members plain dones, of monFri scenarioB] members
  show ?thesis by blast
qed

text \<open>
  An active stage the issue never left (\<^verbatim>\<open>didHappen = false\<close>) gets the empty string in
  both branches.
\<close>

theorem skipped_active_stage_is_empty:
  assumes out: "getStagingDates L issue stages activeStatuses = Inr out"
    and i: "i < length stages"
    and active: "stages ! i \<in> set activeStatuses"
    and rec: "passedDaysTable L issue stages activeStatuses (stages ! i) = Some r"
    and skipped: "\<not> didHappen r"
  shows "out ! i = []"
proof (cases "inactiveDatesTable L issue stages activeStatuses ''Done''")
  case None
  from getStagingDates_passes[OF out] obtain q D where
    pa: "processActiveStatuses L issue stages activeStatuses (processHistories issue)
           Map.empty = Inr q"
    and pi: "processInactiveStates L stages activeStatuses (fst q) Map.empty = Inr D"
    by blast
  from getStagingDates_returned[OF out] None have "mapNotDoneIssue L stages activeStatuses
      (passedDaysTable L issue stages activeStatuses)
      (inactiveDatesTable L issue stages activeStatuses)
      (anchorDate L issue stages activeStatuses) = Inr out"
    by simp
  then obtain c' where "notDoneLoop L activeStatuses
      (passedDaysTable L issue stages activeStatuses)
      (inactiveDatesTable L issue stages activeStatuses) stages
      (anchorDate L issue stages activeStatuses) = Inr (out, c')"
    using mapNotDoneIssue_Inr by blast
  from notDoneLoop_nth[OF this i] obtain ci cj where
    step: "notDoneStage L activeStatuses (passedDaysTable L issue stages activeStatuses)
       (inactiveDatesTable L issue stages activeStatuses) (stages ! i) ci = Inr (out ! i, cj)"
    by blast
  from active have none: "inactiveDatesTable L issue stages activeStatuses (stages ! i) = None"
    by (simp add: tables_of_passes[OF pa pi] inactiveDatesTable_lookup[OF pa pi])
  from rec have look: "tableGet recordMember (passedDaysTable L issue stages activeStatuses)
      (stages ! i) = Entry r"
    by (rule tableGet_own)
  show ?thesis
  proof (cases "toLowerCase (stages ! i) = ''done''")
    case True
    with step none show ?thesis
      by (simp add: notDoneStage_def Let_def tableGet_done)
  next
    case False
    with step active look skipped show ?thesis
      by (simp add: notDoneStage_def Let_def)
  qed
next
  case (Some d)
  with getStagingDates_returned[OF out] have "mapDoneIssue L stages activeStatuses
      (passedDaysTable L issue stages activeStatuses)
      (inactiveDatesTable L issue stages activeStatuses) = Inr out"
    by simp
  from mapDoneIssue_Inr[OF this] obtain st where
    loop: "doneLoop L (passedDaysTable L issue stages activeStatuses) (rev activeStatuses)
         (inactiveDatesTable L issue stages activeStatuses ''Done'', Map.empty) = Inr st"
    and outs: "out = map (\<lambda>stage. formatOrEmpty L
                      (if stage \<in> set activeStatuses then snd st stage
                       else inactiveDatesTable L issue stages activeStatuses stage))
                 stages"
    by blast
  obtain cN tableN where st: "st = (cN, tableN)" by (cases st)
  have "tableN (stages ! i) = None"
  proof (rule ccontr)
    assume "tableN (stages ! i) \<noteq> None"
    then obtain dd where "tableN (stages ! i) = Some dd" by auto
    from doneLoop_written[OF loop[unfolded st] this] rec skipped show False by simp
  qed
  with i active show ?thesis by (simp add: outs st formatOrEmpty_def)
qed

text \<open>The theorem applied to the stage In Progress of Scenario B.\<close>

theorem skipped_active_stage_is_empty_witness:
  "getStagingDates monFri scenarioB workflowStages [''In Progress''] = Inr ['''', '''', ''''] \<and>
   ['''', '''', ''''] ! 1 = ('''' :: string)"
proof -
  have out: "getStagingDates monFri scenarioB workflowStages [''In Progress'']
      = Inr ['''', '''', '''']"
    by code_simp
  have i: "1 < length workflowStages" by (simp add: workflowStages_def)
  have active: "workflowStages ! 1 \<in> set [''In Progress'']"
    by (simp add: workflowStages_def)
  have rec: "passedDaysTable monFri scenarioB workflowStages [''In Progress'']
      (workflowStages ! 1) = Some \<lparr>didHappen = False, passedDays = 0\<rparr>"
    by code_simp
  have skipped: "\<not> didHappen \<lparr>didHappen = False, passedDays = 0\<rparr>" by simp
  from skipped_active_stage_is_empty[OF out i active rec skipped] out
  show ?thesis by simp
qed

text \<open>
  An active status that is no workflow stage but is named like an inherited member: line
  69 reads the function \<^verbatim>\<open>Map\<close>, whose \<^verbatim>\<open>didHappen\<close> is \<^verbatim>\<open>undefined\<close>, and the
  backward loop skips the entry without an exception.
\<close>

theorem inherited_active_status_is_skipped:
  "''constructor'' \<notin> set workflowStages \<and>
   getStagingDates monFri scenarioA workflowStages [''constructor'', ''In Progress'']
     = Inr ['''', ''2024-01-02'', ''2024-01-08'']"
  by code_simp

text \<open>
  The transition sequence \<^verbatim>\<open>processHistories\<close> returns is in non-decreasing order of
  the timestamps, compared as strings.
\<close>

theorem transitions_in_time_order: "sorted (map created (processHistories issue))"
  by (rule processHistories_sorted)

end
